theory Spec2Isabelle
  imports Complex_Main "HOL-Library.AList" "HOL-Library.Multiset"
begin

section \<open>Data model (shared/schema.ts)\<close>

text \<open>
  The zod schemas of the shared schema module, as records. Field names are the
  source's, prefixed with the record's initial (\<open>u_\<close>, \<open>g_\<close>, \<open>m_\<close>, \<open>e_\<close>,
  \<open>n_\<close>), since several schemas share names such as \<open>id\<close> and \<open>createdAt\<close>.
  Optional fields are \<open>option\<close>s. JavaScript numbers that hold counts are \<open>int\<close>.
  A timestamp written by \<open>new Date().toISOString()\<close> is kept as the epoch
  milliseconds it denotes.
\<close>

datatype UserRole = Student | PlatformAdmin

datatype GroupRole = Creator | GroupAdmin | Moderator | Member

datatype MessageType = TextMsg | ImageMsg | FileMsg

datatype NotificationType =
  NAnnouncement | NEvent | NGroup | NMessage | NSystem | NReminder

datatype ReminderType = R24h | R1h

datatype EventCategory = Academic | Sports | Cultural | Workshops | Competitions

record NotificationPreferences =
  eventRegistration :: bool
  eventReminders24h :: bool
  eventReminders1h :: bool

record User =
  u_id :: string
  u_email :: string
  u_password :: string
  u_fullName :: string
  u_department :: string
  u_year :: string
  u_role :: UserRole
  u_avatar :: "string option"
  u_joinedGroups :: "string list"
  u_notificationPreferences :: NotificationPreferences

record Group =
  g_id :: string
  g_name :: string
  g_description :: string
  g_category :: string
  g_department :: "string option"
  g_memberCount :: int
  g_members :: "string list"
  g_memberRoles :: "string \<rightharpoonup> GroupRole"
  g_createdBy :: "string option"
  g_createdAt :: int
  g_icon :: "string option"
  g_postsCount :: int
  g_messagesCount :: int
  g_rules :: "string option"
  g_pinnedMessages :: "string list"
  g_lastActivityAt :: "int option"

record Message =
  m_id :: string
  m_groupId :: string
  m_authorId :: string
  m_authorName :: string
  m_authorAvatar :: "string option"
  m_content :: string
  m_type :: MessageType
  m_fileUrl :: "string option"
  m_fileName :: "string option"
  m_createdAt :: int
  m_editedAt :: "int option"
  m_likes :: int
  m_likedBy :: "string list"
  m_reactions :: "string \<rightharpoonup> string list"
  m_replyTo :: "string option"
  m_isPinned :: bool

record InsertMessage =
  im_groupId :: string
  im_content :: string
  im_type :: MessageType
  im_fileUrl :: "string option"
  im_fileName :: "string option"
  im_replyTo :: "string option"

record Event =
  e_id :: string
  e_title :: string
  e_description :: string
  e_date :: string
  e_time :: string
  e_startTime :: "string option"
  e_endTime :: "string option"
  e_location :: string
  e_category :: "EventCategory option"
  e_tags :: "string list"
  e_imageUrl :: "string option"
  e_requiresRegistration :: bool
  e_maxParticipants :: "int option"
  e_currentParticipants :: int
  e_cancelled :: bool
  e_createdAt :: int
  e_updatedAt :: "int option"
  e_createdBy :: string

record Notification =
  n_id :: string
  n_userId :: string
  n_title :: string
  n_message :: string
  n_type :: NotificationType
  n_read :: bool
  n_createdAt :: int
  n_link :: "string option"
  n_eventId :: "string option"
  n_reminderType :: "ReminderType option"

record InsertNotification =
  in_userId :: string
  in_title :: string
  in_message :: string
  in_type :: NotificationType
  in_link :: "string option"
  in_eventId :: "string option"
  in_reminderType :: "ReminderType option"

section \<open>The in-memory store (server/storage.ts, class MemStorage)\<close>

text \<open>
  The private fields of \<open>MemStorage\<close>. A JavaScript \<open>Map\<close> that the code only
  reads by key is a HOL map; one that the code iterates (\<open>events\<close>,
  \<open>notifications\<close>) is an association list in insertion order, written with
  \<open>AList.update\<close> (replace in place, else append), which is what \<open>Map.set\<close>
  does. A \<open>Set<string>\<close> that is iterated is the list of its elements in
  insertion order; \<open>sentReminders\<close> is only tested and extended.
\<close>

record MemStorage =
  users :: "string \<rightharpoonup> User"
  groups :: "string \<rightharpoonup> Group"
  messages :: "string \<rightharpoonup> Message"
  events :: "(string \<times> Event) list"
  notifications :: "(string \<times> Notification) list"
  eventRegistrations :: "string \<rightharpoonup> string list"
  sentReminders :: "string set"

subsection \<open>Array primitives\<close>

text \<open>\<open>Array.prototype.indexOf\<close>: the first index of the element, or \<open>-1\<close>.\<close>

fun indexOf :: "'a list \<Rightarrow> 'a \<Rightarrow> int" where
  "indexOf [] x = -1"
| "indexOf (y # ys) x =
     (if y = x then 0
      else (let i = indexOf ys x in if i = -1 then -1 else i + 1))"

text \<open>\<open>xs.splice(i, 1)\<close> at an index \<open>0 \<le> i\<close>: the element at \<open>i\<close> is removed
  (nothing is removed when \<open>i\<close> is past the end).\<close>

definition splice1 :: "'a list \<Rightarrow> int \<Rightarrow> 'a list" where
  "splice1 xs i = take (nat i) xs @ drop (nat i + 1) xs"

subsection \<open>Messages\<close>

text \<open>\<open>createMessage\<close>; \<open>newId\<close> is the value \<open>randomUUID()\<close> returns and
  \<open>now\<close> the clock.\<close>

definition createMessage ::
  "string \<Rightarrow> int \<Rightarrow> InsertMessage \<Rightarrow> string \<Rightarrow> string \<Rightarrow> string option \<Rightarrow> MemStorage
     \<Rightarrow> Message \<times> MemStorage" where
  "createMessage newId now message userId authorName authorAvatar s =
     (let newMessage = \<lparr> m_id = newId, m_groupId = im_groupId message, m_authorId = userId,
            m_authorName = authorName, m_authorAvatar = authorAvatar,
            m_content = im_content message, m_type = im_type message,
            m_fileUrl = im_fileUrl message, m_fileName = im_fileName message,
            m_createdAt = now, m_editedAt = None, m_likes = 0, m_likedBy = [],
            m_reactions = Map.empty, m_replyTo = im_replyTo message, m_isPinned = False \<rparr>;
          s1 = s\<lparr> messages := (messages s)(newId \<mapsto> newMessage) \<rparr>
      in case groups s1 (im_groupId message) of
           None \<Rightarrow> (newMessage, s1)
         | Some grp \<Rightarrow>
             (newMessage,
              s1\<lparr> groups := (groups s1)(im_groupId message \<mapsto>
                     grp\<lparr> g_messagesCount := g_messagesCount grp + 1,
                            g_lastActivityAt := Some now \<rparr>) \<rparr>))"

text \<open>\<open>likeMessage\<close>: toggles \<open>userId\<close> in \<open>likedBy\<close> and recomputes \<open>likes\<close>.\<close>

definition likeMessage :: "string \<Rightarrow> string \<Rightarrow> MemStorage \<Rightarrow> Message option \<times> MemStorage" where
  "likeMessage messageId userId s =
     (case messages s messageId of
        None \<Rightarrow> (None, s)
      | Some message \<Rightarrow>
          (let likedIndex = indexOf (m_likedBy message) userId;
               likedBy' = (if likedIndex = -1 then m_likedBy message @ [userId]
                           else splice1 (m_likedBy message) likedIndex);
               message' = message\<lparr> m_likedBy := likedBy', m_likes := int (length likedBy') \<rparr>
           in (Some message', s\<lparr> messages := (messages s)(messageId \<mapsto> message') \<rparr>)))"

text \<open>The store after \<open>n\<close> successive \<open>likeMessage\<close> calls with the same arguments.\<close>

fun likeMessageTimes :: "nat \<Rightarrow> string \<Rightarrow> string \<Rightarrow> MemStorage \<Rightarrow> MemStorage" where
  "likeMessageTimes 0 messageId userId s = s"
| "likeMessageTimes (Suc n) messageId userId s =
     snd (likeMessage messageId userId (likeMessageTimes n messageId userId s))"

text \<open>
  \<open>addReaction\<close>. \<open>reactions\<close> is a plain object (\<open>reactions: {}\<close> in
  \<open>createMessage\<close>), so \<open>message.reactions[emoji]\<close> also finds the properties
  every object inherits from \<open>Object.prototype\<close>. For such a name that is not an
  own key the lookup yields a function (or, for \<open>__proto__\<close>, the prototype
  object): the value is truthy, so no empty array is stored, and it has no
  \<open>indexOf\<close>, so the call raises a \<open>TypeError\<close> before anything is written.
\<close>

datatype JsError = TypeError

definition objectPrototypeKeys :: "string list" where
  "objectPrototypeKeys =
     [''constructor'', ''__defineGetter__'', ''__defineSetter__'', ''hasOwnProperty'',
      ''__lookupGetter__'', ''__lookupSetter__'', ''isPrototypeOf'',
      ''propertyIsEnumerable'', ''toString'', ''valueOf'', ''__proto__'',
      ''toLocaleString'']"

definition addReaction ::
  "string \<Rightarrow> string \<Rightarrow> string \<Rightarrow> MemStorage \<Rightarrow> JsError + (Message option \<times> MemStorage)" where
  "addReaction messageId emoji userId s =
     (case messages s messageId of
        None \<Rightarrow> Inr (None, s)
      | Some message \<Rightarrow>
          if m_reactions message emoji = None \<and> emoji \<in> set objectPrototypeKeys
          then Inl TypeError
          else
            (let reactions1 = (if m_reactions message emoji = None
                               then (m_reactions message)(emoji \<mapsto> [])
                               else m_reactions message);
                 users = (case reactions1 emoji of None \<Rightarrow> [] | Some us \<Rightarrow> us);
                 userIndex = indexOf users userId;
                 reactions2 =
                   (if userIndex = -1 then reactions1(emoji \<mapsto> users @ [userId])
                    else (let users' = splice1 users userIndex
                          in if length users' = 0 then reactions1(emoji := None)
                             else reactions1(emoji \<mapsto> users')));
                 message' = message\<lparr> m_reactions := reactions2 \<rparr>
             in Inr (Some message', s\<lparr> messages := (messages s)(messageId \<mapsto> message') \<rparr>)))"

text \<open>The store a call leaves behind: a call that raises has written nothing.\<close>

definition storeAfter :: "MemStorage \<Rightarrow> JsError + ('a \<times> MemStorage) \<Rightarrow> MemStorage" where
  "storeAfter s r = (case r of Inl _ \<Rightarrow> s | Inr (_, s') \<Rightarrow> s')"

text \<open>\<open>deleteMessage\<close>, \<open>pinMessage\<close>, \<open>unpinMessage\<close>.\<close>

definition deleteMessage :: "string \<Rightarrow> MemStorage \<Rightarrow> bool \<times> MemStorage" where
  "deleteMessage messageId s =
     (case messages s messageId of
        None \<Rightarrow> (False, s)
      | Some message \<Rightarrow>
          (let s1 = s\<lparr> messages := (messages s)(messageId := None) \<rparr>
           in case groups s1 (m_groupId message) of
                None \<Rightarrow> (True, s1)
              | Some grp \<Rightarrow>
                  (True,
                   s1\<lparr> groups := (groups s1)(m_groupId message \<mapsto>
                          grp\<lparr> g_messagesCount :=
                                   max 0 ((if g_messagesCount grp = 0 then 1 else g_messagesCount grp) - 1),
                               g_pinnedMessages :=
                                   filter (\<lambda>i. i \<noteq> messageId) (g_pinnedMessages grp) \<rparr>) \<rparr>)))"

definition pinMessage :: "string \<Rightarrow> MemStorage \<Rightarrow> Message option \<times> MemStorage" where
  "pinMessage messageId s =
     (case messages s messageId of
        None \<Rightarrow> (None, s)
      | Some message \<Rightarrow>
          (let message' = message\<lparr> m_isPinned := True \<rparr>;
               s1 = s\<lparr> messages := (messages s)(messageId \<mapsto> message') \<rparr>
           in case groups s1 (m_groupId message') of
                None \<Rightarrow> (Some message', s1)
              | Some grp \<Rightarrow>
                  if messageId \<notin> set (g_pinnedMessages grp)
                  then (Some message',
                        s1\<lparr> groups := (groups s1)(m_groupId message' \<mapsto>
                               grp\<lparr> g_pinnedMessages := g_pinnedMessages grp @ [messageId] \<rparr>) \<rparr>)
                  else (Some message', s1)))"

definition unpinMessage :: "string \<Rightarrow> MemStorage \<Rightarrow> Message option \<times> MemStorage" where
  "unpinMessage messageId s =
     (case messages s messageId of
        None \<Rightarrow> (None, s)
      | Some message \<Rightarrow>
          (let message' = message\<lparr> m_isPinned := False \<rparr>;
               s1 = s\<lparr> messages := (messages s)(messageId \<mapsto> message') \<rparr>
           in case groups s1 (m_groupId message') of
                None \<Rightarrow> (Some message', s1)
              | Some grp \<Rightarrow>
                  (Some message',
                   s1\<lparr> groups := (groups s1)(m_groupId message' \<mapsto>
                          grp\<lparr> g_pinnedMessages :=
                                   filter (\<lambda>i. i \<noteq> messageId) (g_pinnedMessages grp) \<rparr>) \<rparr>)))"

text \<open>A sequence of pin, unpin and delete calls, each on any message id.\<close>

datatype PinOp = Pin string | Unpin string | Delete string

fun applyPinOp :: "PinOp \<Rightarrow> MemStorage \<Rightarrow> MemStorage" where
  "applyPinOp (Pin messageId) s = snd (pinMessage messageId s)"
| "applyPinOp (Unpin messageId) s = snd (unpinMessage messageId s)"
| "applyPinOp (Delete messageId) s = snd (deleteMessage messageId s)"

fun applyPinOps :: "PinOp list \<Rightarrow> MemStorage \<Rightarrow> MemStorage" where
  "applyPinOps [] s = s"
| "applyPinOps (operation # rest) s = applyPinOps rest (applyPinOp operation s)"

text \<open>The agreement of the \<open>isPinned\<close> flag with the owning group's
  \<open>pinnedMessages\<close>, for every stored message whose group is stored; and the
  list holds no id twice.\<close>

definition pinnedAgree :: "MemStorage \<Rightarrow> bool" where
  "pinnedAgree s \<longleftrightarrow>
     (\<forall>messageId message grp.
        messages s messageId = Some message \<longrightarrow> groups s (m_groupId message) = Some grp \<longrightarrow>
          (m_isPinned message \<longleftrightarrow> messageId \<in> set (g_pinnedMessages grp))) \<and>
     (\<forall>groupId grp. groups s groupId = Some grp \<longrightarrow> distinct (g_pinnedMessages grp))"

subsection \<open>Events\<close>

text \<open>\<open>registerForEvent\<close> and \<open>unregisterFromEvent\<close>. \<open>event.maxParticipants &&
  ...\<close> is false for an absent limit and for the number \<open>0\<close>.\<close>

definition registerForEvent :: "string \<Rightarrow> string \<Rightarrow> MemStorage \<Rightarrow> Event option \<times> MemStorage" where
  "registerForEvent eventId userId s =
     (case map_of (events s) eventId of
        None \<Rightarrow> (None, s)
      | Some event \<Rightarrow>
          if e_cancelled event then (None, s)
          else if (case e_maxParticipants event of
                     None \<Rightarrow> False
                   | Some limit \<Rightarrow> limit \<noteq> 0 \<and> e_currentParticipants event \<ge> limit)
          then (None, s)
          else
            (let s1 = (if eventRegistrations s eventId = None
                       then s\<lparr> eventRegistrations := (eventRegistrations s)(eventId \<mapsto> []) \<rparr>
                       else s);
                 registrations = (case eventRegistrations s1 eventId of None \<Rightarrow> [] | Some r \<Rightarrow> r)
             in if userId \<notin> set registrations
                then (let registrations' = registrations @ [userId];
                          event' = event\<lparr> e_currentParticipants := int (length registrations') \<rparr>
                      in (Some event',
                          s1\<lparr> eventRegistrations := (eventRegistrations s1)(eventId \<mapsto> registrations'),
                              events := AList.update eventId event' (events s1) \<rparr>))
                else (Some event, s1)))"

text \<open>An event is full: it has a limit that is not \<open>0\<close>, and
  \<open>currentParticipants\<close> has reached it.\<close>

definition eventFull :: "Event \<Rightarrow> bool" where
  "eventFull event \<longleftrightarrow>
     (\<exists>limit. e_maxParticipants event = Some limit \<and> limit \<noteq> 0 \<and> limit \<le> e_currentParticipants event)"

definition unregisterFromEvent :: "string \<Rightarrow> string \<Rightarrow> MemStorage \<Rightarrow> Event option \<times> MemStorage" where
  "unregisterFromEvent eventId userId s =
     (case map_of (events s) eventId of
        None \<Rightarrow> (None, s)
      | Some event \<Rightarrow>
          (case eventRegistrations s eventId of
             None \<Rightarrow> (Some event, s)
           | Some registrations \<Rightarrow>
               if userId \<in> set registrations
               then (let registrations' = removeAll userId registrations;
                         event' = event\<lparr> e_currentParticipants := int (length registrations') \<rparr>
                     in (Some event',
                         s\<lparr> eventRegistrations := (eventRegistrations s)(eventId \<mapsto> registrations'),
                            events := AList.update eventId event' (events s) \<rparr>))
               else (Some event, s)))"

text \<open>A sequence of register and unregister calls.\<close>

datatype RegOp = Register string string | Unregister string string

fun applyRegOp :: "RegOp \<Rightarrow> MemStorage \<Rightarrow> MemStorage" where
  "applyRegOp (Register eventId userId) s = snd (registerForEvent eventId userId s)"
| "applyRegOp (Unregister eventId userId) s = snd (unregisterFromEvent eventId userId s)"

fun applyRegOps :: "RegOp list \<Rightarrow> MemStorage \<Rightarrow> MemStorage" where
  "applyRegOps [] s = s"
| "applyRegOps (operation # rest) s = applyRegOps rest (applyRegOp operation s)"

text \<open>The size of an event's registration set (\<open>0\<close> when none was created yet).\<close>

definition registrationCount :: "MemStorage \<Rightarrow> string \<Rightarrow> int" where
  "registrationCount s eventId =
     (case eventRegistrations s eventId of None \<Rightarrow> 0 | Some r \<Rightarrow> int (length r))"

definition participantsAgree :: "MemStorage \<Rightarrow> bool" where
  "participantsAgree s \<longleftrightarrow>
     (\<forall>eventId event. map_of (events s) eventId = Some event \<longrightarrow>
        e_currentParticipants event = registrationCount s eventId)"

subsection \<open>Groups\<close>

record InsertGroup =
  ig_name :: string
  ig_description :: string
  ig_category :: string
  ig_department :: "string option"
  ig_icon :: "string option"
  ig_rules :: "string option"

definition createGroup ::
  "string \<Rightarrow> int \<Rightarrow> InsertGroup \<Rightarrow> string \<Rightarrow> MemStorage \<Rightarrow> Group \<times> MemStorage" where
  "createGroup newId now ins userId s =
     (let newGroup = \<lparr> g_id = newId, g_name = ig_name ins, g_description = ig_description ins,
            g_category = ig_category ins, g_department = ig_department ins,
            g_memberCount = 1, g_members = [userId],
            g_memberRoles = [userId \<mapsto> Creator], g_createdBy = Some userId,
            g_createdAt = now, g_icon = ig_icon ins, g_postsCount = 0, g_messagesCount = 0,
            g_rules = ig_rules ins, g_pinnedMessages = [], g_lastActivityAt = Some now \<rparr>;
          s1 = s\<lparr> groups := (groups s)(newId \<mapsto> newGroup) \<rparr>
      in case users s1 userId of
           None \<Rightarrow> (newGroup, s1)
         | Some user \<Rightarrow>
             (newGroup,
              s1\<lparr> users := (users s1)(userId \<mapsto>
                     user\<lparr> u_joinedGroups := u_joinedGroups user @ [newId] \<rparr>) \<rparr>))"

definition joinGroup :: "string \<Rightarrow> string \<Rightarrow> MemStorage \<Rightarrow> Group option \<times> MemStorage" where
  "joinGroup groupId userId s =
     (case groups s groupId of
        None \<Rightarrow> (None, s)
      | Some grp \<Rightarrow>
          if userId \<notin> set (g_members grp)
          then (let members' = g_members grp @ [userId];
                    grp' = grp\<lparr> g_members := members', g_memberCount := int (length members'),
                               g_memberRoles := (g_memberRoles grp)(userId \<mapsto> Member) \<rparr>;
                    s1 = s\<lparr> groups := (groups s)(groupId \<mapsto> grp') \<rparr>
                in case users s1 userId of
                     None \<Rightarrow> (Some grp', s1)
                   | Some user \<Rightarrow>
                       if groupId \<notin> set (u_joinedGroups user)
                       then (Some grp',
                             s1\<lparr> users := (users s1)(userId \<mapsto>
                                    user\<lparr> u_joinedGroups := u_joinedGroups user @ [groupId] \<rparr>) \<rparr>)
                       else (Some grp', s1))
          else (Some grp, s))"

definition leaveGroup :: "string \<Rightarrow> string \<Rightarrow> MemStorage \<Rightarrow> Group option \<times> MemStorage" where
  "leaveGroup groupId userId s =
     (case groups s groupId of
        None \<Rightarrow> (None, s)
      | Some grp \<Rightarrow>
          (let members' = filter (\<lambda>i. i \<noteq> userId) (g_members grp);
               grp' = grp\<lparr> g_members := members', g_memberCount := int (length members'),
                          g_memberRoles := (g_memberRoles grp)(userId := None) \<rparr>;
               s1 = s\<lparr> groups := (groups s)(groupId \<mapsto> grp') \<rparr>
           in case users s1 userId of
                None \<Rightarrow> (Some grp', s1)
              | Some user \<Rightarrow>
                  (Some grp',
                   s1\<lparr> users := (users s1)(userId \<mapsto>
                          user\<lparr> u_joinedGroups :=
                                   filter (\<lambda>i. i \<noteq> groupId) (u_joinedGroups user) \<rparr>) \<rparr>)))"

text \<open>A sequence of \<open>leaveGroup\<close> calls on one group.\<close>

fun leaveGroupAll :: "string \<Rightarrow> string list \<Rightarrow> MemStorage \<Rightarrow> MemStorage" where
  "leaveGroupAll groupId [] s = s"
| "leaveGroupAll groupId (userId # rest) s =
     leaveGroupAll groupId rest (snd (leaveGroup groupId userId s))"

text \<open>The members of a group that hold the role \<open>creator\<close>.\<close>

definition creators :: "Group \<Rightarrow> string set" where
  "creators grp = {userId. g_memberRoles grp userId = Some Creator}"

subsection \<open>Notifications\<close>

definition createNotification ::
  "string \<Rightarrow> int \<Rightarrow> InsertNotification \<Rightarrow> MemStorage \<Rightarrow> Notification \<times> MemStorage" where
  "createNotification newId now ins s =
     (let newNotification = \<lparr> n_id = newId, n_userId = in_userId ins, n_title = in_title ins,
            n_message = in_message ins, n_type = in_type ins, n_read = False,
            n_createdAt = now, n_link = in_link ins, n_eventId = in_eventId ins,
            n_reminderType = in_reminderType ins \<rparr>
      in (newNotification,
          s\<lparr> notifications := AList.update newId newNotification (notifications s) \<rparr>))"

text \<open>\<open>getNotifications\<close>: the user's notifications, newest first (the sort is stable).\<close>

definition getNotifications :: "string \<Rightarrow> MemStorage \<Rightarrow> Notification list" where
  "getNotifications userId s =
     sort_key (\<lambda>n. - n_createdAt n)
       (filter (\<lambda>n. n_userId n = userId) (map snd (notifications s)))"

subsection \<open>The reminder sweep\<close>

text \<open>
  \<open>scheduleEventReminders\<close> runs its callback every five minutes; \<open>reminderSweep\<close>
  is one run of the callback at the clock value \<open>now\<close> (epoch milliseconds).
  \<open>parseDate\<close> stands for \<open>new Date(event.date).getTime()\<close>, with \<open>None\<close> for an
  invalid date (\<open>NaN\<close>, for which both window tests are false). \<open>ids k\<close> is
  the value of the \<open>k\<close>-th \<open>randomUUID()\<close> call of the run. The loop visits
  every stored event and does not read an event's \<open>cancelled\<close> flag. The
  notification's \<open>createdAt\<close> is read from the clock during the run and is
  taken to be \<open>now\<close> as well.

  \<open>hoursUntil\<close> is a double in the source. \<open>timeDiff\<close> is an integer number of
  milliseconds, the quotient by \<open>3600000\<close> is correctly rounded, and the
  literals \<open>23.9\<close>, \<open>24.1\<close>, \<open>0.9\<close>, \<open>1.1\<close> are the doubles nearest to those
  decimals, while two distinct quotients differ by more than \<open>2 * 10^-7\<close>: the
  comparisons come out as they do on the exact quotient, which is what is
  written here.
\<close>

definition reminderTypeString :: "ReminderType \<Rightarrow> string" where
  "reminderTypeString ty = (case ty of R24h \<Rightarrow> ''24h'' | R1h \<Rightarrow> ''1h'')"

definition reminderKey :: "string \<Rightarrow> string \<Rightarrow> ReminderType \<Rightarrow> string" where
  "reminderKey eventId userId ty = eventId @ ''-'' @ userId @ ''-'' @ reminderTypeString ty"

definition reminderNotification :: "string \<Rightarrow> int \<Rightarrow> Event \<Rightarrow> string \<Rightarrow> ReminderType \<Rightarrow> Notification" where
  "reminderNotification notificationId now event userId ty =
     \<lparr> n_id = notificationId, n_userId = userId,
       n_title = ''Reminder: '' @ e_title event,
       n_message = (case ty of
                      R24h \<Rightarrow> e_title event @ '' starts in 24 hours at '' @ e_location event
                    | R1h \<Rightarrow> e_title event @ '' starts in 1 hour at '' @ e_location event),
       n_type = NReminder, n_read = False, n_createdAt = now,
       n_link = Some (''/events/'' @ e_id event), n_eventId = Some (e_id event),
       n_reminderType = Some ty \<rparr>"

text \<open>The body of \<open>registrations.forEach\<close>; the second component counts the
  \<open>randomUUID()\<close> calls made so far.\<close>

definition remindUser ::
  "(nat \<Rightarrow> string) \<Rightarrow> int \<Rightarrow> Event \<Rightarrow> ReminderType \<Rightarrow> MemStorage \<times> nat \<Rightarrow> string
     \<Rightarrow> MemStorage \<times> nat" where
  "remindUser ids now event ty sk userId =
     (let s = fst sk; k = snd sk; key = reminderKey (e_id event) userId ty
      in if key \<in> sentReminders s then sk
         else case users s userId of
                None \<Rightarrow> sk
              | Some user \<Rightarrow>
                  if \<not> (case ty of
                           R24h \<Rightarrow> eventReminders24h (u_notificationPreferences user)
                         | R1h \<Rightarrow> eventReminders1h (u_notificationPreferences user))
                  then sk
                  else (s\<lparr> notifications :=
                              AList.update (ids k) (reminderNotification (ids k) now event userId ty)
                                (notifications s),
                            sentReminders := insert key (sentReminders s) \<rparr>,
                        Suc k))"

definition sendReminderNotifications ::
  "(nat \<Rightarrow> string) \<Rightarrow> int \<Rightarrow> Event \<Rightarrow> ReminderType \<Rightarrow> MemStorage \<times> nat \<Rightarrow> MemStorage \<times> nat" where
  "sendReminderNotifications ids now event ty sk =
     (case eventRegistrations (fst sk) (e_id event) of
        None \<Rightarrow> sk
      | Some registrations \<Rightarrow> foldl (remindUser ids now event ty) sk registrations)"

definition hoursUntil :: "int \<Rightarrow> int \<Rightarrow> rat" where
  "hoursUntil eventTime now = of_int (eventTime - now) / (1000 * 60 * 60)"

definition in24hWindow :: "int \<Rightarrow> int \<Rightarrow> bool" where
  "in24hWindow eventTime now \<longleftrightarrow>
     hoursUntil eventTime now > 239 / 10 \<and> hoursUntil eventTime now < 241 / 10"

definition in1hWindow :: "int \<Rightarrow> int \<Rightarrow> bool" where
  "in1hWindow eventTime now \<longleftrightarrow>
     hoursUntil eventTime now > 9 / 10 \<and> hoursUntil eventTime now < 11 / 10"

text \<open>The body of the loop over \<open>this.events.values()\<close>.\<close>

definition sweepEvent ::
  "(string \<Rightarrow> int option) \<Rightarrow> (nat \<Rightarrow> string) \<Rightarrow> int \<Rightarrow> MemStorage \<times> nat \<Rightarrow> Event
     \<Rightarrow> MemStorage \<times> nat" where
  "sweepEvent parseDate ids now sk event =
     (case parseDate (e_date event) of
        None \<Rightarrow> sk
      | Some eventTime \<Rightarrow>
          (let sk1 = (if in24hWindow eventTime now
                      then sendReminderNotifications ids now event R24h sk else sk)
           in if in1hWindow eventTime now
              then sendReminderNotifications ids now event R1h sk1 else sk1))"

definition reminderSweep ::
  "(string \<Rightarrow> int option) \<Rightarrow> (nat \<Rightarrow> string) \<Rightarrow> int \<Rightarrow> MemStorage \<Rightarrow> MemStorage" where
  "reminderSweep parseDate ids now s =
     fst (foldl (sweepEvent parseDate ids now) (s, 0) (map snd (events s)))"

text \<open>The stored notifications that are the \<open>ty\<close> reminder of one event for one
  user.\<close>

definition reminderCount :: "MemStorage \<Rightarrow> string \<Rightarrow> string \<Rightarrow> ReminderType \<Rightarrow> nat" where
  "reminderCount s eventId userId ty =
     length (filter (\<lambda>n. n_type n = NReminder \<and> n_eventId n = Some eventId \<and>
                          n_userId n = userId \<and> n_reminderType n = Some ty)
               (map snd (notifications s)))"

subsection \<open>Notions for the reminder sweep\<close>

text \<open>The registration set of an event, as a list (empty when there is none).\<close>

definition registrationsOf :: "MemStorage \<Rightarrow> string \<Rightarrow> string list" where
  "registrationsOf s eventId = (case eventRegistrations s eventId of None \<Rightarrow> [] | Some r \<Rightarrow> r)"

text \<open>
  The reminder key is the concatenation \<open>eventId-userId-type\<close>, and ids may
  contain \<open>-\<close>, so two different triples can in principle give one key.
  \<open>clashFree\<close> says that the key of \<open>(eventId', userId', ty')\<close> is not the
  24-hour key of \<open>(eventId, userId)\<close> unless the triples are the same;
  \<open>noClash\<close> says so for every stored event and every user registered for it.
  (Ids from \<open>randomUUID()\<close> all have the same length, which excludes a clash:
  see \<open>noClash_same_length\<close>.)
\<close>

definition clashFree :: "string \<Rightarrow> string \<Rightarrow> string \<Rightarrow> string \<Rightarrow> ReminderType \<Rightarrow> bool" where
  "clashFree eventId userId eventId' userId' ty' \<longleftrightarrow>
     (reminderKey eventId' userId' ty' = reminderKey eventId userId R24h \<longrightarrow>
        eventId' = eventId \<and> userId' = userId \<and> ty' = R24h)"

definition noClash :: "MemStorage \<Rightarrow> string \<Rightarrow> string \<Rightarrow> bool" where
  "noClash s eventId userId \<longleftrightarrow>
     (\<forall>event'\<in>snd ` set (events s).
        \<forall>userId'\<in>set (registrationsOf s (e_id event')).
          clashFree eventId userId (e_id event') userId' R24h \<and>
          clashFree eventId userId (e_id event') userId' R1h)"

text \<open>Quantities used in the proofs about the sweep: the number of stored 24-hour
  reminders of one event for one user plus one while the reminder key is not
  yet recorded; that the ids still to come are not in use; and what a sweep
  leaves unchanged or only extends.\<close>

definition sweepPotential :: "MemStorage \<Rightarrow> string \<Rightarrow> string \<Rightarrow> nat" where
  "sweepPotential s eventId userId =
     reminderCount s eventId userId R24h +
       (if reminderKey eventId userId R24h \<in> sentReminders s then 0 else 1)"

definition idsFresh :: "(nat \<Rightarrow> string) \<Rightarrow> MemStorage \<times> nat \<Rightarrow> bool" where
  "idsFresh ids sk \<longleftrightarrow> (\<forall>j\<ge>snd sk. ids j \<notin> fst ` set (notifications (fst sk)))"

definition sweepFrame :: "(nat \<Rightarrow> string) \<Rightarrow> MemStorage \<Rightarrow> MemStorage \<Rightarrow> bool" where
  "sweepFrame ids s s' \<longleftrightarrow>
     users s' = users s \<and> events s' = events s \<and>
     eventRegistrations s' = eventRegistrations s \<and>
     sentReminders s \<subseteq> sentReminders s' \<and>
     fst ` set (notifications s') \<subseteq> fst ` set (notifications s) \<union> range ids"

section \<open>The push channel and the routes (server/routes.ts)\<close>

text \<open>
  A WebSocket object is identified by a number. Its \<open>readyState\<close> is kept by
  the \<open>ws\<close> library, not by this code, so every handler reads it from the
  function \<open>readyState\<close> it is given. What a handler does to sockets is the list
  of its effects, in order. \<open>verifyToken\<close> (server/auth.ts) wraps
  \<open>jwt.verify\<close> and is a parameter: the decoded payload, or \<open>None\<close> for \<open>null\<close>.
\<close>

type_synonym ws = nat

datatype ReadyState = CONNECTING | OPEN | CLOSING | CLOSED

record Decoded =
  d_id :: string
  d_email :: string
  d_role :: string
  d_fullName :: string

record TypingEntry =
  userName :: string
  timeout :: nat

datatype Frame =
  NotificationsFrame "Notification list"
| NotificationFrame Notification
| MessageCreatedFrame Message
| TypingUpdateFrame string "(string \<times> string) list"

datatype Effect = Send ws Frame | Close ws nat string

text \<open>The module state: \<open>userConnections\<close>, \<open>typingUsers\<close> (a \<open>Map\<close> of
  \<open>Map\<close>s, both iterated), the store, and the handles of the timeouts that are
  set and not yet cleared.\<close>

record Server =
  storage :: MemStorage
  userConnections :: "string \<rightharpoonup> ws"
  typingUsers :: "(string \<times> (string \<times> TypingEntry) list) list"
  pendingTimeouts :: "nat set"

definition broadcastNotification ::
  "(ws \<Rightarrow> ReadyState) \<Rightarrow> Server \<Rightarrow> string \<Rightarrow> Notification \<Rightarrow> Effect list" where
  "broadcastNotification readyState srv userId notification =
     (case userConnections srv userId of
        None \<Rightarrow> []
      | Some w \<Rightarrow> if readyState w = OPEN then [Send w (NotificationFrame notification)] else [])"

definition broadcastToGroup ::
  "(ws \<Rightarrow> ReadyState) \<Rightarrow> Server \<Rightarrow> Frame \<Rightarrow> string list \<Rightarrow> Effect list" where
  "broadcastToGroup readyState srv frame members =
     concat (map (\<lambda>memberId.
        case userConnections srv memberId of
          None \<Rightarrow> []
        | Some w \<Rightarrow> if readyState w = OPEN then [Send w frame] else []) members)"

text \<open>\<open>wss.on("connection")\<close>, up to the first frame sent. \<open>token\<close> is
  \<open>url.searchParams.get("token")\<close>; \<open>!token\<close> holds for \<open>null\<close> and for the
  empty string.\<close>

definition onConnection ::
  "(string \<Rightarrow> Decoded option) \<Rightarrow> ws \<Rightarrow> string option \<Rightarrow> Server \<Rightarrow> Effect list \<times> Server" where
  "onConnection verifyToken w token srv =
     (case token of
        None \<Rightarrow> ([Close w 1008 ''Authentication required''], srv)
      | Some tok \<Rightarrow>
          if tok = [] then ([Close w 1008 ''Authentication required''], srv)
          else (case verifyToken tok of
                  None \<Rightarrow> ([Close w 1008 ''Invalid token''], srv)
                | Some decoded \<Rightarrow>
                    (let srv1 = srv\<lparr> userConnections := (userConnections srv)(d_id decoded \<mapsto> w) \<rparr>
                     in ([Send w (NotificationsFrame (getNotifications (d_id decoded) (storage srv1)))],
                         srv1))))"

definition typingList :: "(string \<times> TypingEntry) list \<Rightarrow> (string \<times> string) list" where
  "typingList groupTyping = map (\<lambda>(userId, u). (userId, userName u)) groupTyping"

text \<open>The \<open>typing_start\<close> branch of \<open>ws.on("message")\<close>; \<open>timer\<close> is the handle
  \<open>setTimeout\<close> returns.\<close>

definition onTypingStart ::
  "(ws \<Rightarrow> ReadyState) \<Rightarrow> Decoded \<Rightarrow> string \<Rightarrow> nat \<Rightarrow> Server \<Rightarrow> Effect list \<times> Server" where
  "onTypingStart readyState decoded groupId timer srv =
     (case groups (storage srv) groupId of
        None \<Rightarrow> ([], srv)
      | Some grp \<Rightarrow>
          (let typing1 = (if map_of (typingUsers srv) groupId = None
                          then AList.update groupId [] (typingUsers srv) else typingUsers srv);
               groupTyping = (case map_of typing1 groupId of None \<Rightarrow> [] | Some gt \<Rightarrow> gt);
               timeouts1 = (case map_of groupTyping (d_id decoded) of
                              None \<Rightarrow> pendingTimeouts srv
                            | Some u \<Rightarrow> pendingTimeouts srv - {timeout u});
               groupTyping' = AList.update (d_id decoded)
                                \<lparr> userName = d_fullName decoded, timeout = timer \<rparr> groupTyping;
               srv' = srv\<lparr> typingUsers := AList.update groupId groupTyping' typing1,
                           pendingTimeouts := insert timer timeouts1 \<rparr>
           in (broadcastToGroup readyState srv'
                 (TypingUpdateFrame groupId (typingList groupTyping'))
                 (filter (\<lambda>m. m \<noteq> d_id decoded) (g_members grp)),
               srv')))"

text \<open>The callback that \<open>typing_start\<close> hands to \<open>setTimeout\<close>, run three seconds
  later unless \<open>clearTimeout\<close> was called on its handle \<open>timer\<close> (a cleared
  timer never runs). Its closure holds the \<open>Map\<close> of the group's typing entries
  and the group object, given here as \<open>grp\<close> in its state at that time. It
  sends the updated list to every member, the sender included.\<close>

definition onTypingTimeout ::
  "(ws \<Rightarrow> ReadyState) \<Rightarrow> Decoded \<Rightarrow> string \<Rightarrow> Group \<Rightarrow> nat \<Rightarrow> Server \<Rightarrow> Effect list \<times> Server" where
  "onTypingTimeout readyState decoded groupId grp timer srv =
     (if timer \<notin> pendingTimeouts srv then ([], srv)
      else
        (let groupTyping = (case map_of (typingUsers srv) groupId of None \<Rightarrow> [] | Some gt \<Rightarrow> gt);
             groupTyping' = AList.delete (d_id decoded) groupTyping;
             srv' = srv\<lparr> typingUsers := AList.update groupId groupTyping' (typingUsers srv),
                         pendingTimeouts := pendingTimeouts srv - {timer} \<rparr>
         in (broadcastToGroup readyState srv'
               (TypingUpdateFrame groupId (typingList groupTyping')) (g_members grp),
             srv')))"

text \<open>The \<open>typing_stop\<close> branch of \<open>ws.on("message")\<close>.\<close>

definition onTypingStop ::
  "(ws \<Rightarrow> ReadyState) \<Rightarrow> Decoded \<Rightarrow> string \<Rightarrow> Server \<Rightarrow> Effect list \<times> Server" where
  "onTypingStop readyState decoded groupId srv =
     (case groups (storage srv) groupId of
        None \<Rightarrow> ([], srv)
      | Some grp \<Rightarrow>
          (case map_of (typingUsers srv) groupId of
             None \<Rightarrow> ([], srv)
           | Some groupTyping \<Rightarrow>
               (let srv' = (case map_of groupTyping (d_id decoded) of
                              None \<Rightarrow> srv
                            | Some userData \<Rightarrow>
                                srv\<lparr> typingUsers := AList.update groupId
                                        (AList.delete (d_id decoded) groupTyping) (typingUsers srv),
                                     pendingTimeouts := pendingTimeouts srv - {timeout userData} \<rparr>);
                    groupTyping' = (case map_of (typingUsers srv') groupId of
                                      None \<Rightarrow> [] | Some gt \<Rightarrow> gt)
                in (broadcastToGroup readyState srv'
                      (TypingUpdateFrame groupId (typingList groupTyping'))
                      (filter (\<lambda>m. m \<noteq> d_id decoded) (g_members grp)),
                    srv'))))"

text \<open>\<open>ws.on("close")\<close>: the body of its loop over \<open>typingUsers\<close>, then the
  handler. It calls neither \<open>send\<close> nor a broadcast function, so its effect
  list is empty. The handler's closure holds the socket \<open>w\<close> it was installed
  for, and uses only \<open>decoded.id\<close>.\<close>

definition closeTyping ::
  "string \<Rightarrow> (string \<times> (string \<times> TypingEntry) list) list \<times> nat set \<Rightarrow> string \<times> (string \<times> TypingEntry) list
     \<Rightarrow> (string \<times> (string \<times> TypingEntry) list) list \<times> nat set" where
  "closeTyping userId acc entry =
     (case map_of (snd entry) userId of
        None \<Rightarrow> acc
      | Some u \<Rightarrow> (AList.update (fst entry) (AList.delete userId (snd entry)) (fst acc),
                   snd acc - {timeout u}))"

definition onClose :: "ws \<Rightarrow> Decoded \<Rightarrow> Server \<Rightarrow> Effect list \<times> Server" where
  "onClose w decoded srv =
     (let connections' = (userConnections srv)(d_id decoded := None);
          cleared = foldl (closeTyping (d_id decoded))
                      (typingUsers srv, pendingTimeouts srv) (typingUsers srv)
      in ([], srv\<lparr> userConnections := connections', typingUsers := fst cleared,
                    pendingTimeouts := snd cleared \<rparr>))"

text \<open>\<open>ws.on("error")\<close>.\<close>

definition onError :: "ws \<Rightarrow> Decoded \<Rightarrow> Server \<Rightarrow> Effect list \<times> Server" where
  "onError w decoded srv =
     ([], srv\<lparr> userConnections := (userConnections srv)(d_id decoded := None) \<rparr>)"

text \<open>The typing entries of a user, over all groups.\<close>

definition typingGroupsOf :: "Server \<Rightarrow> string \<Rightarrow> string list" where
  "typingGroupsOf srv userId =
     map fst (filter (\<lambda>entry. map_of (snd entry) userId \<noteq> None) (typingUsers srv))"

subsection \<open>POST /api/groups/:id/messages\<close>

text \<open>
  The request as the handler sees it after \<open>authMiddleware\<close>: the path
  parameter, \<open>req.user\<close> and the JSON body. A body field is absent, a string, or
  some other JSON value. \<open>safeParseMessage\<close> is
  \<open>insertMessageSchema.safeParse({ ...req.body, groupId: id })\<close>: \<open>content\<close> is a
  required string, \<open>type\<close> one of the three message types with default
  \<open>text\<close>, the other fields optional strings; \<open>None\<close> is a failed parse.
\<close>

datatype Json = JString string | JOther

record MessageBody =
  b_content :: "Json option"
  b_type :: "Json option"
  b_fileUrl :: "Json option"
  b_fileName :: "Json option"
  b_replyTo :: "Json option"

record MessageRequest =
  params_id :: string
  req_user :: User
  req_body :: MessageBody

datatype ResponseBody = ErrorMessage string | ValidationMessage | MessageJson Message

datatype Response = Response nat ResponseBody

definition parseMessageType :: "Json option \<Rightarrow> MessageType option" where
  "parseMessageType j =
     (case j of
        None \<Rightarrow> Some TextMsg
      | Some (JString v) \<Rightarrow>
          if v = ''text'' then Some TextMsg
          else if v = ''image'' then Some ImageMsg
          else if v = ''file'' then Some FileMsg
          else None
      | Some JOther \<Rightarrow> None)"

definition parseOptionalString :: "Json option \<Rightarrow> string option option" where
  "parseOptionalString j =
     (case j of None \<Rightarrow> Some None | Some (JString v) \<Rightarrow> Some (Some v) | Some JOther \<Rightarrow> None)"

definition safeParseMessage :: "MessageBody \<Rightarrow> string \<Rightarrow> InsertMessage option" where
  "safeParseMessage body groupId =
     (case (b_content body, parseMessageType (b_type body), parseOptionalString (b_fileUrl body),
            parseOptionalString (b_fileName body), parseOptionalString (b_replyTo body)) of
        (Some (JString content), Some ty, Some fileUrl, Some fileName, Some replyTo) \<Rightarrow>
          Some \<lparr> im_groupId = groupId, im_content = content, im_type = ty,
                 im_fileUrl = fileUrl, im_fileName = fileName, im_replyTo = replyTo \<rparr>
      | _ \<Rightarrow> None)"

text \<open>The notification the handler writes for one other member.\<close>

definition messageNotification :: "User \<Rightarrow> Group \<Rightarrow> string \<Rightarrow> Message \<Rightarrow> string \<Rightarrow> InsertNotification" where
  "messageNotification user grp groupId message memberId =
     \<lparr> in_userId = memberId,
       in_title = ''New message in '' @ g_name grp,
       in_message = u_fullName user @ '': '' @ take 50 (m_content message) @
                    (if length (m_content message) > 50 then ''...'' else []),
       in_type = NMessage,
       in_link = Some (''/groups/'' @ groupId),
       in_eventId = None, in_reminderType = None \<rparr>"

text \<open>The body of the handler's loop \<open>for (const memberId of group.members)\<close>;
  the state carries the effects so far, the server and the number of
  \<open>randomUUID()\<close> calls made.\<close>

definition notifyMember ::
  "(ws \<Rightarrow> ReadyState) \<Rightarrow> (nat \<Rightarrow> string) \<Rightarrow> int \<Rightarrow> User \<Rightarrow> Group \<Rightarrow> string \<Rightarrow> Message
     \<Rightarrow> Effect list \<times> Server \<times> nat \<Rightarrow> string \<Rightarrow> Effect list \<times> Server \<times> nat" where
  "notifyMember readyState ids now user grp groupId message acc memberId =
     (case acc of (effects, srv, k) \<Rightarrow>
        if memberId \<noteq> u_id user
        then (case createNotification (ids k) now
                     (messageNotification user grp groupId message memberId) (storage srv) of
                (notification, st') \<Rightarrow>
                  (let srv' = srv\<lparr> storage := st' \<rparr>
                   in (effects @ broadcastNotification readyState srv' memberId notification,
                       srv', Suc k)))
        else acc)"

text \<open>The handler. \<open>ids 0\<close> is the id of the message, \<open>ids 1\<close>, \<open>ids 2\<close>, ... the
  ids of the notifications, in the order of the \<open>randomUUID()\<close> calls.\<close>

definition postGroupMessage ::
  "(ws \<Rightarrow> ReadyState) \<Rightarrow> (nat \<Rightarrow> string) \<Rightarrow> int \<Rightarrow> MessageRequest \<Rightarrow> Server
     \<Rightarrow> Response \<times> Effect list \<times> Server" where
  "postGroupMessage readyState ids now req srv =
     (let groupId = params_id req; user = req_user req
      in case groups (storage srv) groupId of
           None \<Rightarrow> (Response 404 (ErrorMessage ''Group not found''), [], srv)
         | Some grp0 \<Rightarrow>
             if u_id user \<notin> set (g_members grp0)
             then (Response 403 (ErrorMessage ''You must be a member to send messages''), [], srv)
             else (case safeParseMessage (req_body req) groupId of
                     None \<Rightarrow> (Response 400 ValidationMessage, [], srv)
                   | Some parsed \<Rightarrow>
                       (case createMessage (ids 0) now parsed (u_id user) (u_fullName user)
                               (u_avatar user) (storage srv) of
                          (message, st1) \<Rightarrow>
                            (let srv1 = srv\<lparr> storage := st1 \<rparr>;
                                 grp = (case groups st1 groupId of None \<Rightarrow> grp0 | Some g \<Rightarrow> g);
                                 sent = broadcastToGroup readyState srv1
                                          (MessageCreatedFrame message) (g_members grp)
                             in case foldl (notifyMember readyState ids now user grp groupId message)
                                       (sent, srv1, Suc 0) (g_members grp) of
                                  (effects, srv2, k) \<Rightarrow>
                                    (Response 201 (MessageJson message), effects, srv2)))))"

text \<open>The stored notifications addressed to one user.\<close>

definition notificationsFor :: "MemStorage \<Rightarrow> string \<Rightarrow> Notification list" where
  "notificationsFor s userId = filter (\<lambda>n. n_userId n = userId) (map snd (notifications s))"

section \<open>Example data\<close>

text \<open>A small store: users \<open>x\<close> and \<open>y\<close>, both members of the group \<open>g1\<close>
  that \<open>x\<close> created, one message \<open>m1\<close> of \<open>x\<close> in \<open>g1\<close>, the event \<open>e1\<close>
  with room for one participant, for which \<open>x\<close> is registered, and the
  event \<open>e2\<close> without a limit, for which \<open>y\<close> is registered.\<close>

definition exUser :: "string \<Rightarrow> string \<Rightarrow> User" where
  "exUser userId fullName =
     \<lparr> u_id = userId, u_email = userId @ ''@campus.edu'', u_password = ''hash'',
       u_fullName = fullName, u_department = ''Computer Science'', u_year = ''1st Year'',
       u_role = Student, u_avatar = None, u_joinedGroups = [''g1''],
       u_notificationPreferences =
         \<lparr> eventRegistration = True, eventReminders24h = True, eventReminders1h = True \<rparr> \<rparr>"

definition exGroup :: Group where
  "exGroup =
     \<lparr> g_id = ''g1'', g_name = ''Chess'', g_description = ''Chess club'', g_category = ''Games'',
       g_department = None, g_memberCount = 2, g_members = [''x'', ''y''],
       g_memberRoles = [''x'' \<mapsto> Creator, ''y'' \<mapsto> Member], g_createdBy = Some ''x'',
       g_createdAt = 0, g_icon = None, g_postsCount = 0, g_messagesCount = 1, g_rules = None,
       g_pinnedMessages = [], g_lastActivityAt = Some 0 \<rparr>"

definition exMessage :: Message where
  "exMessage =
     \<lparr> m_id = ''m1'', m_groupId = ''g1'', m_authorId = ''x'', m_authorName = ''Xavier'',
       m_authorAvatar = None, m_content = ''hello'', m_type = TextMsg, m_fileUrl = None,
       m_fileName = None, m_createdAt = 0, m_editedAt = None, m_likes = 0, m_likedBy = [],
       m_reactions = Map.empty, m_replyTo = None, m_isPinned = False \<rparr>"

definition exEvent :: Event where
  "exEvent =
     \<lparr> e_id = ''e1'', e_title = ''Open day'', e_description = ''Campus open day'',
       e_date = ''2030-01-02'', e_time = ''10:00 AM'', e_startTime = Some ''10:00 AM'',
       e_endTime = None, e_location = ''Main hall'', e_category = Some Academic,
       e_tags = [''campus''], e_imageUrl = None,
       e_requiresRegistration = True, e_maxParticipants = Some 1, e_currentParticipants = 1,
       e_cancelled = False, e_createdAt = 0, e_updatedAt = None, e_createdBy = ''x'' \<rparr>"

definition exEvent2 :: Event where
  "exEvent2 =
     \<lparr> e_id = ''e2'', e_title = ''Film night'', e_description = ''Outdoor cinema'',
       e_date = ''2030-02-03'', e_time = ''8:00 PM'', e_startTime = None,
       e_endTime = None, e_location = ''Lawn'', e_category = Some Cultural,
       e_tags = [], e_imageUrl = None,
       e_requiresRegistration = False, e_maxParticipants = None, e_currentParticipants = 1,
       e_cancelled = False, e_createdAt = 0, e_updatedAt = None, e_createdBy = ''x'' \<rparr>"

definition exInsertGroup :: InsertGroup where
  "exInsertGroup =
     \<lparr> ig_name = ''Go'', ig_description = ''Go club'', ig_category = ''Games'',
       ig_department = None, ig_icon = None, ig_rules = None \<rparr>"

definition exStore :: MemStorage where
  "exStore =
     \<lparr> users = [''x'' \<mapsto> exUser ''x'' ''Xavier'', ''y'' \<mapsto> exUser ''y'' ''Yara''],
       groups = [''g1'' \<mapsto> exGroup],
       messages = [''m1'' \<mapsto> exMessage],
       events = [(''e1'', exEvent), (''e2'', exEvent2)],
       notifications = [],
       eventRegistrations = [''e1'' \<mapsto> [''x''], ''e2'' \<mapsto> [''y'']],
       sentReminders = {} \<rparr>"

text \<open>An event as \<open>createEvent\<close> stores it for a body with \<open>maxParticipants: 0\<close>
  (\<open>z.number().optional()\<close> accepts the number \<open>0\<close>): \<open>currentParticipants\<close> is
  \<open>0\<close>, and no registration set exists yet. The store that holds this event only.\<close>

definition exEvent3 :: Event where
  "exEvent3 =
     \<lparr> e_id = ''e3'', e_title = ''Study hall'', e_description = ''Quiet room'',
       e_date = ''2030-03-04'', e_time = ''9:00 AM'', e_startTime = None,
       e_endTime = None, e_location = ''Library'', e_category = Some Academic,
       e_tags = [], e_imageUrl = None,
       e_requiresRegistration = True, e_maxParticipants = Some 0, e_currentParticipants = 0,
       e_cancelled = False, e_createdAt = 0, e_updatedAt = Some 0, e_createdBy = ''x'' \<rparr>"

definition exStore3 :: MemStorage where
  "exStore3 = exStore\<lparr> events := [(''e3'', exEvent3)], eventRegistrations := Map.empty \<rparr>"

text \<open>A server over the example store with no connection yet, a token verifier
  that accepts the tokens \<open>tok-x\<close> and \<open>tok-y\<close>, and sockets that are all open.\<close>

definition exDecoded :: "string \<Rightarrow> string \<Rightarrow> Decoded" where
  "exDecoded userId fullName =
     \<lparr> d_id = userId, d_email = userId @ ''@campus.edu'', d_role = ''student'',
       d_fullName = fullName \<rparr>"

definition exVerify :: "string \<Rightarrow> Decoded option" where
  "exVerify tok =
     (if tok = ''tok-x'' then Some (exDecoded ''x'' ''Xavier'')
      else if tok = ''tok-y'' then Some (exDecoded ''y'' ''Yara'')
      else None)"

definition exServer :: Server where
  "exServer =
     \<lparr> storage = exStore, userConnections = Map.empty, typingUsers = [], pendingTimeouts = {} \<rparr>"

definition allOpen :: "ws \<Rightarrow> ReadyState" where
  "allOpen w = OPEN"

text \<open>The example server with one stored notification for \<open>y\<close>.\<close>

definition exNotice :: InsertNotification where
  "exNotice =
     \<lparr> in_userId = ''y'', in_title = ''New Post in Group'', in_message = ''Xavier posted in Chess'',
       in_type = NGroup, in_link = Some ''/groups/g1'', in_eventId = None,
       in_reminderType = None \<rparr>"

definition exNotifiedServer :: Server where
  "exNotifiedServer = exServer\<lparr> storage := snd (createNotification ''n1'' 5 exNotice exStore) \<rparr>"

text \<open>The example server after \<open>x\<close> connected on socket \<open>1\<close>, \<open>y\<close> connected on
  socket \<open>2\<close>, and \<open>x\<close> sent \<open>typing_start\<close> for \<open>g1\<close> (timer handle \<open>7\<close>).\<close>

definition exConnectedServer :: Server where
  "exConnectedServer =
     snd (onConnection exVerify 2 (Some ''tok-y'')
            (snd (onConnection exVerify 1 (Some ''tok-x'') exServer)))"

definition exTypingServer :: Server where
  "exTypingServer =
     snd (onTypingStart allOpen (exDecoded ''x'' ''Xavier'') ''g1'' 7 exConnectedServer)"

text \<open>Ids for the examples (\<open>n\<close>, \<open>nn\<close>, \<open>nnn\<close>, ...), and the request of \<open>x\<close> to
  post \<open>hello\<close> in \<open>g1\<close>.\<close>

definition exIds :: "nat \<Rightarrow> string" where
  "exIds k = replicate (Suc k) CHR ''n''"

definition exRequest :: MessageRequest where
  "exRequest =
     \<lparr> params_id = ''g1'', req_user = exUser ''x'' ''Xavier'',
       req_body = \<lparr> b_content = Some (JString ''hello''), b_type = None, b_fileUrl = None,
                    b_fileName = None, b_replyTo = None \<rparr> \<rparr>"

text \<open>For the sweep examples: the date of \<open>e1\<close> parses to 24 hours after time
  \<open>0\<close> (no other date parses), and a second supply of ids.\<close>

definition exParseDate :: "string \<Rightarrow> int option" where
  "exParseDate d = (if d = ''2030-01-02'' then Some 86400000 else None)"

definition exIds2 :: "nat \<Rightarrow> string" where
  "exIds2 k = replicate (Suc k) CHR ''r''"

section \<open>Array primitives: facts\<close>

lemma indexOf_ge: "- 1 \<le> indexOf xs x"
  by (induction xs) (auto simp: Let_def)

lemma indexOf_absent: "indexOf xs x = -1 \<longleftrightarrow> x \<notin> set xs"
proof (induction xs)
  case Nil
  show ?case by simp
next
  case (Cons y ys)
  have "- 1 \<le> indexOf ys x" by (rule indexOf_ge)
  with Cons show ?case by (auto simp: Let_def)
qed

lemma splice1_indexOf: "x \<in> set xs \<Longrightarrow> splice1 xs (indexOf xs x) = remove1 x xs"
proof (induction xs)
  case Nil
  then show ?case by simp
next
  case (Cons y ys)
  show ?case
  proof (cases "y = x")
    case True
    then show ?thesis by (simp add: splice1_def)
  next
    case False
    with Cons.prems have mem: "x \<in> set ys" by simp
    then have ne: "indexOf ys x \<noteq> -1" by (simp add: indexOf_absent)
    have ge: "- 1 \<le> indexOf ys x" by (rule indexOf_ge)
    from ne ge have pos: "0 \<le> indexOf ys x" by linarith
    then have n: "nat (indexOf ys x + 1) = Suc (nat (indexOf ys x))" by linarith
    from Cons.IH [OF mem] have "take (nat (indexOf ys x)) ys @ drop (nat (indexOf ys x) + 1) ys
        = remove1 x ys"
      by (simp add: splice1_def)
    with False ne n show ?thesis by (simp add: splice1_def Let_def)
  qed
qed

section \<open>Likes\<close>

text \<open>A message is created with an empty \<open>likedBy\<close>, and \<open>likeMessage\<close> is the only
  writer of the field: \<open>likedBy\<close> never holds a user twice.\<close>

lemma createMessage_likedBy:
  "m_likedBy (fst (createMessage newId now ins userId authorName authorAvatar s)) = []"
  by (simp add: createMessage_def Let_def split: option.splits)

lemma likeMessage_step:
  assumes "messages s mid = Some m" and "distinct (m_likedBy m)"
  shows "\<exists>m'. likeMessage mid uid s = (Some m', s\<lparr> messages := (messages s)(mid \<mapsto> m') \<rparr>) \<and>
           distinct (m_likedBy m') \<and>
           (uid \<in> set (m_likedBy m') \<longleftrightarrow> uid \<notin> set (m_likedBy m)) \<and>
           m_likes m' = int (length (m_likedBy m'))"
proof (cases "uid \<in> set (m_likedBy m)")
  case True
  then have "indexOf (m_likedBy m) uid \<noteq> -1" by (simp add: indexOf_absent)
  with True assms show ?thesis
    by (simp add: likeMessage_def Let_def splice1_indexOf)
next
  case False
  then have "indexOf (m_likedBy m) uid = -1" by (simp add: indexOf_absent)
  with False assms show ?thesis
    by (simp add: likeMessage_def Let_def)
qed

lemma likeMessageTimes_inv:
  assumes "messages s mid = Some m" and "distinct (m_likedBy m)"
  shows "\<exists>m'. messages (likeMessageTimes n mid uid s) mid = Some m' \<and>
           distinct (m_likedBy m') \<and>
           (uid \<in> set (m_likedBy m') \<longleftrightarrow> (uid \<in> set (m_likedBy m)) \<noteq> odd n) \<and>
           (0 < n \<longrightarrow> m_likes m' = int (length (m_likedBy m')))"
proof (induction n)
  case 0
  with assms show ?case by simp
next
  case (Suc n)
  then obtain m1 where m1: "messages (likeMessageTimes n mid uid s) mid = Some m1"
      "distinct (m_likedBy m1)"
      "uid \<in> set (m_likedBy m1) \<longleftrightarrow> (uid \<in> set (m_likedBy m)) \<noteq> odd n"
    by blast
  from likeMessage_step [OF m1(1) m1(2), of uid] obtain m2 where
    m2: "likeMessage mid uid (likeMessageTimes n mid uid s) =
           (Some m2, (likeMessageTimes n mid uid s)
              \<lparr> messages := (messages (likeMessageTimes n mid uid s))(mid \<mapsto> m2) \<rparr>)"
      "distinct (m_likedBy m2)"
      "uid \<in> set (m_likedBy m2) \<longleftrightarrow> uid \<notin> set (m_likedBy m1)"
      "m_likes m2 = int (length (m_likedBy m2))"
    by blast
  with m1(3) show ?case by auto
qed

text \<open>
  C7. For a stored message whose \<open>likedBy\<close> holds no user twice, and any user:
  after \<open>n\<close> successive \<open>likeMessage\<close> calls by that user the user is in
  \<open>likedBy\<close> exactly when the membership before the calls and the parity of \<open>n\<close>
  differ (so the membership alternates call by call), and after every call
  \<open>likes\<close> is the length of \<open>likedBy\<close>.
\<close>

theorem likeMessage_alternates:
  assumes "messages s messageId = Some message" and "distinct (m_likedBy message)"
  shows "\<exists>message'. messages (likeMessageTimes n messageId userId s) messageId = Some message' \<and>
           (userId \<in> set (m_likedBy message') \<longleftrightarrow>
              (userId \<in> set (m_likedBy message)) \<noteq> odd n) \<and>
           (0 < n \<longrightarrow> m_likes message' = int (length (m_likedBy message')))"
  using likeMessageTimes_inv [OF assms, of n userId] by blast

theorem likeMessage_alternates_witness:
  "messages exStore ''m1'' = Some exMessage \<and> distinct (m_likedBy exMessage) \<and>
   (\<exists>message'. messages (likeMessageTimes 3 ''m1'' ''y'' exStore) ''m1'' = Some message' \<and>
      ''y'' \<in> set (m_likedBy message') \<and> m_likes message' = int (length (m_likedBy message')))"
proof -
  have h1: "messages exStore ''m1'' = Some exMessage" by (simp add: exStore_def)
  have h2: "distinct (m_likedBy exMessage)" by (simp add: exMessage_def)
  have h3: "''y'' \<notin> set (m_likedBy exMessage)" by (simp add: exMessage_def)
  from likeMessage_alternates [OF h1 h2, of 3 "''y''"] h1 h2 h3 show ?thesis by simp
qed

section \<open>Reactions\<close>


lemma addReaction_first:
  assumes "messages s mid = Some m" and "m_reactions m emoji = None"
    and "emoji \<notin> set objectPrototypeKeys"
  shows "addReaction mid emoji uid s =
           Inr (Some (m\<lparr> m_reactions := (m_reactions m)(emoji \<mapsto> [uid]) \<rparr>),
                s\<lparr> messages := (messages s)(mid \<mapsto> m\<lparr> m_reactions := (m_reactions m)(emoji \<mapsto> [uid]) \<rparr>) \<rparr>)"
  using assms by (simp add: addReaction_def Let_def)

lemma addReaction_second:
  assumes "messages s mid = Some m" and "m_reactions m emoji = Some [uid]"
  shows "addReaction mid emoji uid s =
           Inr (Some (m\<lparr> m_reactions := (m_reactions m)(emoji := None) \<rparr>),
                s\<lparr> messages := (messages s)(mid \<mapsto> m\<lparr> m_reactions := (m_reactions m)(emoji := None) \<rparr>) \<rparr>)"
  using assms by (simp add: addReaction_def Let_def splice1_def)

lemma addReaction_inherited:
  assumes "messages s mid = Some m" and "m_reactions m emoji = None"
    and "emoji \<in> set objectPrototypeKeys"
  shows "addReaction mid emoji uid s = Inl TypeError"
  using assms by (simp add: addReaction_def)

text \<open>For an emoji that is not the name of an inherited object property, the
  two calls round-trip: the first stores the entry \<open>[userId]\<close>, the second
  removes the user and deletes the emptied key.\<close>

lemma addReaction_round_trip:
  assumes "messages s messageId = Some message" and "m_reactions message emoji = None"
    and "emoji \<notin> set objectPrototypeKeys"
  shows "let s1 = storeAfter s (addReaction messageId emoji userId s);
             s2 = storeAfter s1 (addReaction messageId emoji userId s1)
         in (\<exists>message1. messages s1 messageId = Some message1 \<and>
               m_reactions message1 emoji = Some [userId]) \<and>
            (\<exists>message2. messages s2 messageId = Some message2 \<and>
               m_reactions message2 emoji = None)"
proof -
  let ?m1 = "message\<lparr> m_reactions := (m_reactions message)(emoji \<mapsto> [userId]) \<rparr>"
  let ?s1 = "s\<lparr> messages := (messages s)(messageId \<mapsto> ?m1) \<rparr>"
  have a1: "addReaction messageId emoji userId s = Inr (Some ?m1, ?s1)"
    by (rule addReaction_first [OF assms])
  have "messages ?s1 messageId = Some ?m1" and "m_reactions ?m1 emoji = Some [userId]" by simp_all
  from addReaction_second [OF this]
  have a2: "\<exists>r. addReaction messageId emoji userId ?s1 =
     Inr (r, ?s1\<lparr> messages := (messages ?s1)(messageId \<mapsto>
        ?m1\<lparr> m_reactions := (m_reactions ?m1)(emoji := None) \<rparr>) \<rparr>)" by blast
  from a1 a2 show ?thesis
    by (auto simp add: storeAfter_def Let_def)
qed

text \<open>
  C8, evaluated on the code. The message \<open>m1\<close> is stored and has no reaction,
  so the key \<open>toString\<close> is absent from its \<open>reactions\<close>; the react route passes
  any non-empty string on as the emoji. \<open>reactions[''toString'']\<close> finds the
  inherited function: no array is stored, \<open>indexOf\<close> is not a function of that
  value, and the call raises a \<open>TypeError\<close> with nothing written. The second
  call, on the same store, raises in the same way: no user was added, none is
  removed and no key is deleted. The same two calls with the emoji \<open>+1\<close> store
  \<open>[y]\<close> and then delete the key.
\<close>

theorem addReaction_inherited_raises:
  "messages exStore ''m1'' = Some exMessage \<and>
   m_reactions exMessage ''toString'' = None \<and>
   addReaction ''m1'' ''toString'' ''y'' exStore = Inl TypeError \<and>
   storeAfter exStore (addReaction ''m1'' ''toString'' ''y'' exStore) = exStore \<and>
   addReaction ''m1'' ''toString'' ''y''
     (storeAfter exStore (addReaction ''m1'' ''toString'' ''y'' exStore)) = Inl TypeError \<and>
   map_option (\<lambda>message. m_reactions message ''+1'')
     (messages (storeAfter exStore (addReaction ''m1'' ''+1'' ''y'' exStore)) ''m1'') =
       Some (Some [''y'']) \<and>
   map_option (\<lambda>message. m_reactions message ''+1'')
     (messages (storeAfter (storeAfter exStore (addReaction ''m1'' ''+1'' ''y'' exStore))
                  (addReaction ''m1'' ''+1'' ''y''
                     (storeAfter exStore (addReaction ''m1'' ''+1'' ''y'' exStore)))) ''m1'') =
       Some None"
proof -
  have m: "messages exStore ''m1'' = Some exMessage" by (simp add: exStore_def)
  have n: "m_reactions exMessage ''toString'' = None" "m_reactions exMessage ''+1'' = None"
    by (simp_all add: exMessage_def)
  have k: "''toString'' \<in> set objectPrototypeKeys" "''+1'' \<notin> set objectPrototypeKeys"
    by (simp_all add: objectPrototypeKeys_def)
  have r: "addReaction ''m1'' ''toString'' ''y'' exStore = Inl TypeError"
    by (rule addReaction_inherited [OF m n(1) k(1)])
  have s: "storeAfter exStore (addReaction ''m1'' ''toString'' ''y'' exStore) = exStore"
    unfolding r by (simp add: storeAfter_def)
  have p: "map_option (\<lambda>message. m_reactions message ''+1'')
     (messages (storeAfter exStore (addReaction ''m1'' ''+1'' ''y'' exStore)) ''m1'') =
       Some (Some [''y'']) \<and>
   map_option (\<lambda>message. m_reactions message ''+1'')
     (messages (storeAfter (storeAfter exStore (addReaction ''m1'' ''+1'' ''y'' exStore))
                  (addReaction ''m1'' ''+1'' ''y''
                     (storeAfter exStore (addReaction ''m1'' ''+1'' ''y'' exStore)))) ''m1'') =
       Some None"
    using addReaction_round_trip [OF m n(2) k(2), of "''y''"] by (auto simp: Let_def)
  from m n(1) r s p show ?thesis by simp
qed

section \<open>Pinned messages\<close>


lemma distinct_count_list_one: "distinct xs \<Longrightarrow> x \<in> set xs \<Longrightarrow> count_list xs x = 1"
  by (induction xs) auto

lemma pinMessage_agree: "pinnedAgree s \<Longrightarrow> pinnedAgree (snd (pinMessage mid s))"
  unfolding pinnedAgree_def pinMessage_def
  by (auto simp: Let_def split: option.splits if_splits)

lemma unpinMessage_agree: "pinnedAgree s \<Longrightarrow> pinnedAgree (snd (unpinMessage mid s))"
  unfolding pinnedAgree_def unpinMessage_def
  by (auto simp: Let_def split: option.splits if_splits)

lemma deleteMessage_agree: "pinnedAgree s \<Longrightarrow> pinnedAgree (snd (deleteMessage mid s))"
  unfolding pinnedAgree_def deleteMessage_def
  by (auto simp: Let_def split: option.splits if_splits)

lemma applyPinOp_agree: "pinnedAgree s \<Longrightarrow> pinnedAgree (applyPinOp operation s)"
  by (cases operation) (simp_all add: pinMessage_agree unpinMessage_agree deleteMessage_agree)

lemma applyPinOps_agree: "pinnedAgree s \<Longrightarrow> pinnedAgree (applyPinOps ops s)"
  by (induction ops arbitrary: s) (simp_all add: applyPinOp_agree)

lemma pinMessage_pinned:
  assumes "messages s mid = Some m" and "groups s (m_groupId m) = Some g"
  shows "\<exists>m' g'. messages (snd (pinMessage mid s)) mid = Some m' \<and> m_groupId m' = m_groupId m \<and>
           m_isPinned m' \<and>
           groups (snd (pinMessage mid s)) (m_groupId m) = Some g' \<and> mid \<in> set (g_pinnedMessages g')"
  using assms by (auto simp: pinMessage_def Let_def)

lemma deleteMessage_unpinned:
  assumes "messages s mid = Some m" and "groups s (m_groupId m) = Some g"
  shows "messages (snd (deleteMessage mid s)) mid = None \<and>
         (\<exists>g'. groups (snd (deleteMessage mid s)) (m_groupId m) = Some g' \<and>
                mid \<notin> set (g_pinnedMessages g'))"
  using assms by (auto simp: deleteMessage_def Let_def)

text \<open>
  C5. From a store in which, for every stored message whose group is stored,
  the \<open>isPinned\<close> flag agrees with the presence of the message id in the
  group's \<open>pinnedMessages\<close> (and no list holds an id twice), every sequence of
  \<open>pinMessage\<close>, \<open>unpinMessage\<close> and \<open>deleteMessage\<close> calls leads to a store in
  which they agree again. In such a store, pinning a message twice leaves its
  id in the owning group's \<open>pinnedMessages\<close> exactly once, and deleting a
  message removes the message and leaves its id out of that list.
\<close>

theorem pinned_flag_agrees:
  assumes "pinnedAgree s"
  shows "pinnedAgree (applyPinOps ops s) \<and>
         (\<forall>messageId message grp.
            messages s messageId = Some message \<longrightarrow> groups s (m_groupId message) = Some grp \<longrightarrow>
              (\<exists>grp2. groups (snd (pinMessage messageId (snd (pinMessage messageId s))))
                          (m_groupId message) = Some grp2 \<and>
                       count_list (g_pinnedMessages grp2) messageId = 1) \<and>
              messages (snd (deleteMessage messageId s)) messageId = None \<and>
              (\<exists>grp3. groups (snd (deleteMessage messageId s)) (m_groupId message) = Some grp3 \<and>
                       messageId \<notin> set (g_pinnedMessages grp3)))"
proof (intro conjI allI impI)
  show "pinnedAgree (applyPinOps ops s)" by (rule applyPinOps_agree [OF assms])
next
  fix messageId message grp
  assume m: "messages s messageId = Some message" and g: "groups s (m_groupId message) = Some grp"
  let ?s1 = "snd (pinMessage messageId s)"
  let ?s2 = "snd (pinMessage messageId ?s1)"
  from pinMessage_pinned [OF m g] obtain m1 g1 where
    1: "messages ?s1 messageId = Some m1" "m_groupId m1 = m_groupId message"
       "groups ?s1 (m_groupId message) = Some g1" by blast
  from 1 have g1': "groups ?s1 (m_groupId m1) = Some g1" by simp
  from pinMessage_pinned [OF 1(1) g1'] 1(2) obtain g2 where
    2: "groups ?s2 (m_groupId message) = Some g2" "messageId \<in> set (g_pinnedMessages g2)" by auto
  have "pinnedAgree ?s2" by (intro pinMessage_agree assms)
  with 2(1) have "distinct (g_pinnedMessages g2)" unfolding pinnedAgree_def by blast
  with 2 show "\<exists>grp2. groups ?s2 (m_groupId message) = Some grp2 \<and>
      count_list (g_pinnedMessages grp2) messageId = 1"
    by (auto simp: distinct_count_list_one)
  from deleteMessage_unpinned [OF m g]
  show "messages (snd (deleteMessage messageId s)) messageId = None"
    and "\<exists>grp3. groups (snd (deleteMessage messageId s)) (m_groupId message) = Some grp3 \<and>
                       messageId \<notin> set (g_pinnedMessages grp3)" by blast+
qed

lemma exStore_agree: "pinnedAgree exStore"
  by (auto simp: pinnedAgree_def exStore_def exMessage_def exGroup_def split: if_splits)

theorem pinned_flag_agrees_witness:
  "pinnedAgree exStore \<and>
   pinnedAgree (applyPinOps [Pin ''m1'', Pin ''m1'', Unpin ''m1'', Pin ''m1'', Delete ''m1''] exStore) \<and>
   (\<exists>grp2. groups (snd (pinMessage ''m1'' (snd (pinMessage ''m1'' exStore)))) ''g1'' = Some grp2 \<and>
            count_list (g_pinnedMessages grp2) ''m1'' = 1) \<and>
   messages (snd (deleteMessage ''m1'' exStore)) ''m1'' = None \<and>
   (\<exists>grp3. groups (snd (deleteMessage ''m1'' exStore)) ''g1'' = Some grp3 \<and>
            ''m1'' \<notin> set (g_pinnedMessages grp3))"
proof -
  have m: "messages exStore ''m1'' = Some exMessage" by (simp add: exStore_def)
  have g: "groups exStore (m_groupId exMessage) = Some exGroup"
    by (simp add: exStore_def exMessage_def)
  have gid: "m_groupId exMessage = ''g1''" by (simp add: exMessage_def)
  from pinned_flag_agrees [OF exStore_agree,
      of "[Pin ''m1'', Pin ''m1'', Unpin ''m1'', Pin ''m1'', Delete ''m1'']"] m g gid exStore_agree
  show ?thesis by metis
qed

section \<open>Event registration\<close>


lemma registerForEvent_missing:
  "map_of (events s) eventId = None \<Longrightarrow> registerForEvent eventId userId s = (None, s)"
  by (simp add: registerForEvent_def)

lemma registerForEvent_refused:
  "map_of (events s) eventId = Some event \<Longrightarrow> e_cancelled event \<or> eventFull event \<Longrightarrow>
     registerForEvent eventId userId s = (None, s)"
  by (auto simp: registerForEvent_def eventFull_def split: option.splits)

lemma registerForEvent_again:
  "map_of (events s) eventId = Some event \<Longrightarrow> \<not> e_cancelled event \<Longrightarrow> \<not> eventFull event \<Longrightarrow>
   eventRegistrations s eventId = Some registrations \<Longrightarrow> userId \<in> set registrations \<Longrightarrow>
     registerForEvent eventId userId s = (Some event, s)"
  by (auto simp: registerForEvent_def eventFull_def Let_def split: option.splits)

lemma registerForEvent_agree:
  "participantsAgree s \<Longrightarrow> participantsAgree (snd (registerForEvent eventId userId s))"
  unfolding participantsAgree_def registerForEvent_def registrationCount_def
  by (auto simp: Let_def AList.update_conv' split: option.splits if_splits)

lemma unregisterFromEvent_agree:
  "participantsAgree s \<Longrightarrow> participantsAgree (snd (unregisterFromEvent eventId userId s))"
  unfolding participantsAgree_def unregisterFromEvent_def registrationCount_def
  by (auto simp: Let_def AList.update_conv' split: option.splits if_splits)

lemma applyRegOps_agree: "participantsAgree s \<Longrightarrow> participantsAgree (applyRegOps ops s)"
proof (induction ops arbitrary: s)
  case Nil
  then show ?case by simp
next
  case (Cons operation rest)
  have "participantsAgree (applyRegOp operation s)"
    using Cons.prems by (cases operation) (simp_all add: registerForEvent_agree unregisterFromEvent_agree)
  then show ?case by (simp add: Cons.IH)
qed

lemma registerForEvent_accepted:
  "map_of (events s) eventId = Some event \<Longrightarrow> \<not> e_cancelled event \<Longrightarrow> \<not> eventFull event \<Longrightarrow>
     fst (registerForEvent eventId userId s) \<noteq> None"
  by (auto simp: registerForEvent_def eventFull_def Let_def split: option.splits)

text \<open>
  C10, as stated, fails on a limit of \<open>0\<close>. The event \<open>e3\<close> exists, is not
  cancelled, has \<open>maxParticipants\<close> set (to \<open>0\<close>) and \<open>currentParticipants = 0\<close>,
  which is at or above it: the claim has the call return nothing and change
  nothing. \<open>event.maxParticipants && ...\<close> is false for \<open>0\<close>, so the call
  registers \<open>y\<close>, sets \<open>currentParticipants\<close> to \<open>1\<close> and returns the event.
\<close>

theorem registerForEvent_counterexample:
  "map_of (events exStore3) ''e3'' = Some exEvent3 \<and>
   \<not> e_cancelled exEvent3 \<and>
   e_maxParticipants exEvent3 = Some 0 \<and>
   e_currentParticipants exEvent3 = 0 \<and>
   eventRegistrations exStore3 ''e3'' = None \<and>
   fst (registerForEvent ''e3'' ''y'' exStore3) = Some (exEvent3\<lparr> e_currentParticipants := 1 \<rparr>) \<and>
   eventRegistrations (snd (registerForEvent ''e3'' ''y'' exStore3)) ''e3'' = Some [''y''] \<and>
   snd (registerForEvent ''e3'' ''y'' exStore3) \<noteq> exStore3"
proof -
  have r: "registerForEvent ''e3'' ''y'' exStore3 =
             (Some (exEvent3\<lparr> e_currentParticipants := 1 \<rparr>),
              exStore3\<lparr> eventRegistrations := [''e3'' \<mapsto> [''y'']],
                        events := [(''e3'', exEvent3\<lparr> e_currentParticipants := 1 \<rparr>)] \<rparr>)"
    by (simp add: registerForEvent_def exStore3_def exEvent3_def Let_def)
  have n: "eventRegistrations exStore3 ''e3'' = None" by (simp add: exStore3_def)
  have "eventRegistrations (snd (registerForEvent ''e3'' ''y'' exStore3)) ''e3'' = Some [''y'']"
    unfolding r by simp
  with n have d: "snd (registerForEvent ''e3'' ''y'' exStore3) \<noteq> exStore3" by auto
  have e: "map_of (events exStore3) ''e3'' = Some exEvent3" by (simp add: exStore3_def)
  have f: "\<not> e_cancelled exEvent3" "e_maxParticipants exEvent3 = Some 0"
    "e_currentParticipants exEvent3 = 0" by (simp_all add: exEvent3_def)
  from r n d e f show ?thesis by simp
qed

text \<open>
  C10, amended. \<open>registerForEvent\<close> returns no event and leaves the store
  unchanged when the event does not exist, is cancelled, or is full: it has a
  limit other than \<open>0\<close> that \<open>currentParticipants\<close> has reached. A limit of \<open>0\<close>
  counts as no limit: an event that exists and is neither cancelled nor full
  is never refused. For such an event, registering a user who is already
  registered leaves the store unchanged and returns the event. From a store
  in which every event's \<open>currentParticipants\<close> is the size of its
  registration set (the seed data and \<open>createEvent\<close> give such stores),
  every sequence of register and unregister calls leads to such a store.
\<close>

theorem registerForEvent_guarded:
  "(map_of (events s) eventId = None \<longrightarrow> registerForEvent eventId userId s = (None, s)) \<and>
   (\<forall>event. map_of (events s) eventId = Some event \<longrightarrow>
      (e_cancelled event \<or> eventFull event \<longrightarrow> registerForEvent eventId userId s = (None, s)) \<and>
      (\<not> e_cancelled event \<and> \<not> eventFull event \<longrightarrow>
         fst (registerForEvent eventId userId s) \<noteq> None \<and>
         (\<forall>registrations. eventRegistrations s eventId = Some registrations \<and> userId \<in> set registrations \<longrightarrow>
            registerForEvent eventId userId s = (Some event, s)))) \<and>
   (participantsAgree s \<longrightarrow> participantsAgree (applyRegOps ops s))"
  using registerForEvent_missing registerForEvent_refused registerForEvent_again
    registerForEvent_accepted applyRegOps_agree
  by blast

lemma exStore_participants: "participantsAgree exStore"
  by (auto simp: participantsAgree_def exStore_def exEvent_def exEvent2_def registrationCount_def
           split: if_splits)

theorem registerForEvent_guarded_witness:
  "map_of (events exStore) ''e9'' = None \<and> registerForEvent ''e9'' ''x'' exStore = (None, exStore) \<and>
   map_of (events exStore) ''e1'' = Some exEvent \<and> eventFull exEvent \<and>
   registerForEvent ''e1'' ''y'' exStore = (None, exStore) \<and>
   map_of (events exStore) ''e2'' = Some exEvent2 \<and> \<not> e_cancelled exEvent2 \<and> \<not> eventFull exEvent2 \<and>
   eventRegistrations exStore ''e2'' = Some [''y''] \<and>
   registerForEvent ''e2'' ''y'' exStore = (Some exEvent2, exStore) \<and>
   map_of (events exStore3) ''e3'' = Some exEvent3 \<and> \<not> e_cancelled exEvent3 \<and> \<not> eventFull exEvent3 \<and>
   fst (registerForEvent ''e3'' ''y'' exStore3) \<noteq> None \<and>
   participantsAgree exStore \<and>
   participantsAgree (applyRegOps [Register ''e2'' ''x'', Register ''e2'' ''x'', Unregister ''e1'' ''x'',
                                   Register ''e1'' ''y'', Unregister ''e2'' ''y''] exStore)"
proof -
  have a: "map_of (events exStore) ''e9'' = None" by (simp add: exStore_def)
  have b: "map_of (events exStore) ''e1'' = Some exEvent" by (simp add: exStore_def)
  have c: "eventFull exEvent" by (simp add: eventFull_def exEvent_def)
  have d: "map_of (events exStore) ''e2'' = Some exEvent2" by (simp add: exStore_def)
  have e: "\<not> e_cancelled exEvent2" "\<not> eventFull exEvent2" by (simp_all add: eventFull_def exEvent2_def)
  have f: "eventRegistrations exStore ''e2'' = Some [''y'']" by (simp add: exStore_def)
  have g: "map_of (events exStore3) ''e3'' = Some exEvent3" by (simp add: exStore3_def)
  have h: "\<not> e_cancelled exEvent3" "\<not> eventFull exEvent3" by (simp_all add: eventFull_def exEvent3_def)
  note t4 = registerForEvent_guarded [of exStore3 "''e3''" "''y''" "[]"]
  from t4 g h have r5: "fst (registerForEvent ''e3'' ''y'' exStore3) \<noteq> None" by blast
  note t1 = registerForEvent_guarded [of exStore "''e9''" "''x''" "[]"]
  note t2 = registerForEvent_guarded [of exStore "''e1''" "''y''" "[]"]
  note t3 = registerForEvent_guarded [of exStore "''e2''" "''y''"
     "[Register ''e2'' ''x'', Register ''e2'' ''x'', Unregister ''e1'' ''x'',
       Register ''e1'' ''y'', Unregister ''e2'' ''y'']"]
  from t1 a have r1: "registerForEvent ''e9'' ''x'' exStore = (None, exStore)" by blast
  from t2 b c have r2: "registerForEvent ''e1'' ''y'' exStore = (None, exStore)" by blast
  from t3 d e f have r3: "registerForEvent ''e2'' ''y'' exStore = (Some exEvent2, exStore)" by simp
  from t3 exStore_participants have r4: "participantsAgree (applyRegOps [Register ''e2'' ''x'', Register ''e2'' ''x'', Unregister ''e1'' ''x'',
                                   Register ''e1'' ''y'', Unregister ''e2'' ''y''] exStore)" by blast
  from a b c d e f g h r1 r2 r3 r4 r5 exStore_participants show ?thesis by simp
qed

section \<open>Group roles\<close>


lemma createGroup_creators:
  "creators (fst (createGroup newId now ins userId s)) = {userId}"
  by (simp add: createGroup_def creators_def Let_def split: option.splits)

lemma leaveGroup_roles_step:
  assumes "groups s groupId = Some grp"
  shows "\<exists>grp'. groups (snd (leaveGroup groupId userId s)) groupId = Some grp' \<and>
           g_memberRoles grp' = (g_memberRoles grp)(userId := None)"
  using assms by (simp add: leaveGroup_def Let_def split: option.splits)

lemma leaveGroupAll_roles:
  assumes "groups s groupId = Some grp"
  shows "\<exists>grp'. groups (leaveGroupAll groupId leavers s) groupId = Some grp' \<and>
           g_memberRoles grp' = (\<lambda>u. if u \<in> set leavers then None else g_memberRoles grp u)"
  using assms
proof (induction leavers arbitrary: s grp)
  case Nil
  then show ?case by simp
next
  case (Cons userId rest)
  from leaveGroup_roles_step [OF Cons.prems, of userId] obtain grp1 where
    1: "groups (snd (leaveGroup groupId userId s)) groupId = Some grp1"
       "g_memberRoles grp1 = (g_memberRoles grp)(userId := None)" by blast
  from Cons.IH [OF 1(1)] obtain grp' where
    2: "groups (leaveGroupAll groupId rest (snd (leaveGroup groupId userId s))) groupId = Some grp'"
       "g_memberRoles grp' = (\<lambda>u. if u \<in> set rest then None else g_memberRoles grp1 u)" by blast
  have "g_memberRoles grp' = (\<lambda>u. if u \<in> set (userId # rest) then None else g_memberRoles grp u)"
    unfolding 2(2) 1(2) by (rule ext) simp
  with 2(1) show ?case by simp
qed

lemma exGroup_creators: "creators exGroup = {''x''}"
  by (auto simp: creators_def exGroup_def split: if_splits)

text \<open>
  C4, as stated, fails: \<open>x\<close> holds the role \<open>creator\<close> in \<open>g1\<close>; after \<open>x\<close>
  leaves, the group has no entry for \<open>x\<close> and no \<open>creator\<close> entry at all.
\<close>

theorem leaveGroup_creator_counterexample:
  "groups exStore ''g1'' = Some exGroup \<and> g_memberRoles exGroup ''x'' = Some Creator \<and>
   map_option g_memberRoles (groups (snd (leaveGroup ''g1'' ''x'' exStore)) ''g1'') =
     Some ((g_memberRoles exGroup)(''x'' := None)) \<and>
   map_option creators (groups (snd (leaveGroup ''g1'' ''x'' exStore)) ''g1'') = Some {}"
proof -
  have g: "groups exStore ''g1'' = Some exGroup" by (simp add: exStore_def)
  have r: "g_memberRoles exGroup ''x'' = Some Creator" by (simp add: exGroup_def)
  from leaveGroup_roles_step [OF g, of "''x''"] obtain grp' where
    1: "groups (snd (leaveGroup ''g1'' ''x'' exStore)) ''g1'' = Some grp'"
       "g_memberRoles grp' = (g_memberRoles exGroup)(''x'' := None)" by blast
  from 1(2) have "creators grp' = {}"
    by (auto simp: creators_def exGroup_def split: if_splits)
  with g r 1 show ?thesis by simp
qed

text \<open>
  C4, amended. A group made by \<open>createGroup\<close> has exactly one \<open>creator\<close> entry,
  its maker's. \<open>leaveGroup\<close> removes the \<open>memberRoles\<close> entry of the user who
  leaves, whatever the role, and no other entry: after any sequence of
  \<open>leaveGroup\<close> calls on a group, the entries of the users who left are gone,
  every other entry is as before, and the \<open>creator\<close> entries are those of before
  whose holders did not leave.
\<close>

theorem leaveGroup_roles:
  "creators (fst (createGroup newId now ins creatorId s0)) = {creatorId} \<and>
   (\<forall>grp. groups s groupId = Some grp \<longrightarrow>
      (\<exists>grp'. groups (leaveGroupAll groupId leavers s) groupId = Some grp' \<and>
         g_memberRoles grp' = (\<lambda>u. if u \<in> set leavers then None else g_memberRoles grp u) \<and>
         creators grp' = creators grp - set leavers))"
proof (intro conjI allI impI)
  show "creators (fst (createGroup newId now ins creatorId s0)) = {creatorId}"
    by (rule createGroup_creators)
next
  fix grp assume "groups s groupId = Some grp"
  from leaveGroupAll_roles [OF this, of leavers] obtain grp' where
    1: "groups (leaveGroupAll groupId leavers s) groupId = Some grp'"
       "g_memberRoles grp' = (\<lambda>u. if u \<in> set leavers then None else g_memberRoles grp u)" by blast
  have "creators grp' = creators grp - set leavers"
    unfolding creators_def 1(2) by auto
  with 1 show "\<exists>grp'. groups (leaveGroupAll groupId leavers s) groupId = Some grp' \<and>
         g_memberRoles grp' = (\<lambda>u. if u \<in> set leavers then None else g_memberRoles grp u) \<and>
         creators grp' = creators grp - set leavers" by blast
qed

theorem leaveGroup_roles_witness:
  "creators (fst (createGroup ''g2'' 0 exInsertGroup ''y'' exStore)) = {''y''} \<and>
   groups exStore ''g1'' = Some exGroup \<and>
   (\<exists>grp'. groups (leaveGroupAll ''g1'' [''y''] exStore) ''g1'' = Some grp' \<and>
      g_memberRoles grp' ''x'' = Some Creator \<and> g_memberRoles grp' ''y'' = None \<and>
      creators grp' = {''x''})"
proof -
  have g: "groups exStore ''g1'' = Some exGroup" by (simp add: exStore_def)
  have r: "g_memberRoles exGroup ''x'' = Some Creator" by (simp add: exGroup_def)
  note t = leaveGroup_roles [of "''g2''" 0 exInsertGroup "''y''" exStore exStore "''g1''" "[''y'']"]
  from t have c: "creators (fst (createGroup ''g2'' 0 exInsertGroup ''y'' exStore)) = {''y''}"
    by (rule conjunct1)
  note u = t [THEN conjunct2, THEN spec, THEN mp, OF g]
  from u obtain grp' where
    1: "groups (leaveGroupAll ''g1'' [''y''] exStore) ''g1'' = Some grp'"
       "g_memberRoles grp' = (\<lambda>u. if u \<in> set [''y''] then None else g_memberRoles exGroup u)"
       "creators grp' = creators exGroup - set [''y'']" by (elim exE conjE)
  from 1(2) r have "g_memberRoles grp' ''x'' = Some Creator" "g_memberRoles grp' ''y'' = None"
    by simp_all
  moreover from 1(3) have "creators grp' = {''x''}" by (simp add: exGroup_creators)
  ultimately show ?thesis using c g 1(1) by blast
qed

section \<open>The session registry\<close>

text \<open>
  C2, as stated, fails: \<open>x\<close> connects on socket \<open>1\<close> and then on socket \<open>2\<close>, which
  replaces the registry entry; the close event of socket \<open>1\<close> removes the entry
  that holds socket \<open>2\<close>.
\<close>

theorem onClose_replaced_counterexample:
  "userConnections
     (snd (onConnection exVerify 2 (Some ''tok-x'')
        (snd (onConnection exVerify 1 (Some ''tok-x'') exServer)))) ''x'' = Some 2 \<and>
   userConnections
     (snd (onClose 1 (exDecoded ''x'' ''Xavier'')
        (snd (onConnection exVerify 2 (Some ''tok-x'')
           (snd (onConnection exVerify 1 (Some ''tok-x'') exServer)))))) ''x'' = None"
  by (simp add: onConnection_def onClose_def exVerify_def exDecoded_def exServer_def Let_def)

text \<open>
  C2, amended. The close handler and the error handler of a connection remove
  the registry entry of the connection's user, whichever socket the entry
  holds, and leave every other entry as it is: the handlers do not compare the
  closing socket with the stored one.
\<close>

theorem onClose_unregisters:
  "userConnections (snd (onClose w decoded srv)) = (userConnections srv)(d_id decoded := None) \<and>
   userConnections (snd (onError w decoded srv)) = (userConnections srv)(d_id decoded := None)"
  by (simp add: onClose_def onError_def Let_def)

theorem onClose_unregisters_witness:
  "userConnections (snd (onClose 1 (exDecoded ''x'' ''Xavier'')
      (exServer\<lparr> userConnections := [''x'' \<mapsto> 2, ''y'' \<mapsto> 3] \<rparr>))) = [''y'' \<mapsto> 3]"
  using onClose_unregisters [of 1 "exDecoded ''x'' ''Xavier''"
      "exServer\<lparr> userConnections := [''x'' \<mapsto> 2, ''y'' \<mapsto> 3] \<rparr>"]
  by (simp add: exDecoded_def fun_upd_twist)

section \<open>The handshake\<close>

lemma getNotifications_mset:
  "mset (getNotifications userId s) = mset (notificationsFor s userId)"
  by (simp add: getNotifications_def notificationsFor_def)

text \<open>
  C9. When the token is missing, empty or refused by \<open>verifyToken\<close>, the
  connection handler closes the socket with code \<open>1008\<close> and leaves the server
  state, the registry included, as it was. When the token is accepted, the
  handler registers the socket for the decoded user and sends exactly one
  frame, a \<open>notifications\<close> frame whose list holds the stored notifications of
  that user, each as often as it is stored.
\<close>

theorem onConnection_handshake:
  "((token = None \<or> token = Some [] \<or> (\<exists>tok. token = Some tok \<and> verifyToken tok = None)) \<longrightarrow>
      (\<exists>reason. onConnection verifyToken w token srv = ([Close w 1008 reason], srv))) \<and>
   (\<forall>tok decoded. token = Some tok \<and> tok \<noteq> [] \<and> verifyToken tok = Some decoded \<longrightarrow>
      (\<exists>frameData.
         onConnection verifyToken w token srv =
           ([Send w (NotificationsFrame frameData)],
            srv\<lparr> userConnections := (userConnections srv)(d_id decoded \<mapsto> w) \<rparr>) \<and>
         mset frameData = mset (notificationsFor (storage srv) (d_id decoded))))"
  by (auto simp: onConnection_def Let_def getNotifications_mset split: option.splits)

theorem onConnection_handshake_witness:
  "(\<exists>reason. onConnection exVerify 1 None exNotifiedServer = ([Close 1 1008 reason], exNotifiedServer)) \<and>
   exVerify ''bad'' = None \<and>
   (\<exists>reason. onConnection exVerify 1 (Some ''bad'') exNotifiedServer =
      ([Close 1 1008 reason], exNotifiedServer)) \<and>
   exVerify ''tok-y'' = Some (exDecoded ''y'' ''Yara'') \<and>
   (\<exists>frameData.
      onConnection exVerify 2 (Some ''tok-y'') exNotifiedServer =
        ([Send 2 (NotificationsFrame frameData)],
         exNotifiedServer\<lparr> userConnections := (userConnections exNotifiedServer)(''y'' \<mapsto> 2) \<rparr>) \<and>
      mset frameData = mset (notificationsFor (storage exNotifiedServer) ''y'')) \<and>
   length (notificationsFor (storage exNotifiedServer) ''y'') = 1"
proof -
  have bad: "exVerify ''bad'' = None" by (simp add: exVerify_def)
  have good: "exVerify ''tok-y'' = Some (exDecoded ''y'' ''Yara'')" by (simp add: exVerify_def)
  have idy: "d_id (exDecoded ''y'' ''Yara'') = ''y''" by (simp add: exDecoded_def)
  note t1 = onConnection_handshake [of None exVerify 1 exNotifiedServer, THEN conjunct1]
  note t2 = onConnection_handshake [of "Some ''bad''" exVerify 1 exNotifiedServer, THEN conjunct1]
  note t3 = onConnection_handshake [of "Some ''tok-y''" exVerify 2 exNotifiedServer, THEN conjunct2,
      THEN spec, THEN spec, of "''tok-y''" "exDecoded ''y'' ''Yara''"]
  from t1 have r1: "\<exists>reason. onConnection exVerify 1 None exNotifiedServer =
      ([Close 1 1008 reason], exNotifiedServer)" by simp
  from t2 bad have r2: "\<exists>reason. onConnection exVerify 1 (Some ''bad'') exNotifiedServer =
      ([Close 1 1008 reason], exNotifiedServer)" by simp
  from t3 good idy have r3: "\<exists>frameData.
      onConnection exVerify 2 (Some ''tok-y'') exNotifiedServer =
        ([Send 2 (NotificationsFrame frameData)],
         exNotifiedServer\<lparr> userConnections := (userConnections exNotifiedServer)(''y'' \<mapsto> 2) \<rparr>) \<and>
      mset frameData = mset (notificationsFor (storage exNotifiedServer) ''y'')" by simp
  have r4: "length (notificationsFor (storage exNotifiedServer) ''y'') = 1"
    by (simp add: notificationsFor_def exNotifiedServer_def createNotification_def exNotice_def
          exStore_def Let_def)
  from r1 r2 r3 r4 bad good show ?thesis by blast
qed

section \<open>Typing entries on disconnect\<close>

lemma exConnectedServer_eq:
  "exConnectedServer = exServer\<lparr> userConnections := [''x'' \<mapsto> 1, ''y'' \<mapsto> 2] \<rparr>"
  by (simp add: exConnectedServer_def onConnection_def exVerify_def exDecoded_def exServer_def Let_def)

lemma exTypingServer_eq:
  "exTypingServer = exServer\<lparr> userConnections := [''x'' \<mapsto> 1, ''y'' \<mapsto> 2],
      typingUsers := [(''g1'', [(''x'', \<lparr> userName = ''Xavier'', timeout = 7 \<rparr>)])],
      pendingTimeouts := {7} \<rparr>"
  by (simp add: exTypingServer_def exConnectedServer_eq onTypingStart_def exDecoded_def
        exServer_def exStore_def Let_def)

lemma update_map_distinct:
  assumes "distinct (map fst al)" and "(k, v0) \<in> set al"
  shows "AList.update k v al = map (\<lambda>e. if e = (k, v0) then (k, v) else e) al"
  using assms
proof (induction al)
  case Nil
  then show ?case by simp
next
  case (Cons a al)
  show ?case
  proof (cases "fst a = k")
    case True
    with Cons.prems have a: "a = (k, v0)"
      by (cases a) (auto simp: image_iff)
    from Cons.prems a have "(k, v0) \<notin> set al" by (auto simp: image_iff)
    then have "map (\<lambda>e. if e = (k, v0) then (k, v) else e) al = al"
      by (induction al) auto
    with a show ?thesis by simp
  next
    case False
    with Cons show ?thesis by auto
  qed
qed

lemma closeTyping_fold:
  assumes "distinct (map fst acc)" and "set es \<subseteq> set acc" and "distinct es"
  shows "fst (foldl (closeTyping userId) (acc, timers) es) =
           map (\<lambda>e. if e \<in> set es then (fst e, AList.delete userId (snd e)) else e) acc"
  using assms
proof (induction es arbitrary: acc timers)
  case Nil
  then show ?case by simp
next
  case (Cons e es)
  let ?clean = "\<lambda>e. (fst e, AList.delete userId (snd e))"
  let ?step = "closeTyping userId (acc, timers) e"
  let ?acc1 = "map (\<lambda>e'. if e' = e then ?clean e else e') acc"
  from Cons.prems have e_in: "e \<in> set acc" and e_notin: "e \<notin> set es" by auto
  have acc1: "fst ?step = ?acc1"
  proof (cases "map_of (snd e) userId")
    case None
    then have "userId \<notin> fst ` set (snd e)" by (simp add: map_of_eq_None_iff)
    then have "?clean e = e" by simp
    then have "?acc1 = acc" by (induction acc) auto
    with None show ?thesis by (simp add: closeTyping_def)
  next
    case (Some u)
    from e_in have "(fst e, snd e) \<in> set acc" by simp
    from update_map_distinct [OF Cons.prems(1) this, of "AList.delete userId (snd e)"] Some
    show ?thesis by (simp add: closeTyping_def)
  qed
  have keys1: "map fst ?acc1 = map fst acc" by (induction acc) auto
  have d1: "distinct (map fst ?acc1)" unfolding keys1 by (rule Cons.prems(1))
  have sub1: "set es \<subseteq> set ?acc1"
  proof
    fix x assume x: "x \<in> set es"
    with Cons.prems(2) have "x \<in> set acc" by auto
    moreover from x e_notin have "x \<noteq> e" by auto
    ultimately show "x \<in> set ?acc1" by (auto simp: image_iff)
  qed
  from Cons.prems(3) have d_es: "distinct es" by simp
  obtain timers1 where step: "?step = (?acc1, timers1)"
    using acc1 by (cases ?step) auto
  have notin: "?clean e \<notin> set es" if "?clean e \<noteq> e"
  proof
    assume c: "?clean e \<in> set es"
    with Cons.prems(2) have "?clean e \<in> set acc" by auto
    with e_in Cons.prems(1) have "?clean e = e"
      by (metis (no_types, lifting) eq_key_imp_eq_value fst_conv prod.collapse)
    with that show False by simp
  qed
  have "fst (foldl (closeTyping userId) (acc, timers) (e # es)) =
        map (\<lambda>e'. if e' \<in> set es then ?clean e' else e') ?acc1"
    using Cons.IH [OF d1 sub1 d_es, of timers1] step by simp
  also have "\<dots> = map (\<lambda>e'. if e' \<in> set (e # es) then ?clean e' else e') acc"
    using notin e_notin by (auto simp: comp_def AList.delete_idem)
  finally show ?case .
qed

text \<open>What the close handler does in general: it removes the typing entry of
  the user in every group (the keys of \<open>typingUsers\<close> being distinct, as the
  keys of a \<open>Map\<close> are), and it sends nothing.\<close>

lemma onClose_removes_typing:
  assumes "distinct (map fst (typingUsers srv))"
  shows "typingUsers (snd (onClose w decoded srv)) =
           map (\<lambda>e. (fst e, AList.delete (d_id decoded) (snd e))) (typingUsers srv) \<and>
         typingGroupsOf (snd (onClose w decoded srv)) (d_id decoded) = [] \<and>
         fst (onClose w decoded srv) = []"
proof -
  from assms have d: "distinct (typingUsers srv)" by (rule distinct_map [THEN iffD1, THEN conjunct1])
  from closeTyping_fold [OF assms subset_refl d, of "d_id decoded" "pendingTimeouts srv"]
  have 1: "typingUsers (snd (onClose w decoded srv)) =
           map (\<lambda>e. (fst e, AList.delete (d_id decoded) (snd e))) (typingUsers srv)"
    by (simp add: onClose_def Let_def cong: map_cong)
  have "typingGroupsOf (snd (onClose w decoded srv)) (d_id decoded) = []"
    unfolding typingGroupsOf_def 1
    by (simp add: filter_empty_conv AList.delete_conv')
  with 1 show ?thesis by (simp add: onClose_def Let_def)
qed

text \<open>
  C3, evaluated on the code. \<open>x\<close> and \<open>y\<close> are connected and \<open>x\<close> is typing in
  \<open>g1\<close> (\<open>y\<close> was sent the list with \<open>x\<close> in it). When the connection of \<open>x\<close>
  closes, the close handler removes the typing entry of \<open>x\<close> and clears its
  timer, and sends nothing: \<open>y\<close> is not sent the updated list, and the cleared
  timer will not send it either. The \<open>typing_stop\<close> branch and the timer
  callback, in the same state, do send the empty list.
\<close>

theorem onClose_typing_silent:
  "fst (onTypingStart allOpen (exDecoded ''x'' ''Xavier'') ''g1'' 7 exConnectedServer) =
     [Send 2 (TypingUpdateFrame ''g1'' [(''x'', ''Xavier'')])] \<and>
   typingGroupsOf exTypingServer ''x'' = [''g1''] \<and>
   userConnections exTypingServer ''y'' = Some 2 \<and>
   fst (onClose 1 (exDecoded ''x'' ''Xavier'') exTypingServer) = [] \<and>
   typingGroupsOf (snd (onClose 1 (exDecoded ''x'' ''Xavier'') exTypingServer)) ''x'' = [] \<and>
   typingUsers (snd (onClose 1 (exDecoded ''x'' ''Xavier'') exTypingServer)) = [(''g1'', [])] \<and>
   pendingTimeouts (snd (onClose 1 (exDecoded ''x'' ''Xavier'') exTypingServer)) = {} \<and>
   fst (onTypingStop allOpen (exDecoded ''x'' ''Xavier'') ''g1'' exTypingServer) =
     [Send 2 (TypingUpdateFrame ''g1'' [])] \<and>
   fst (onTypingTimeout allOpen (exDecoded ''x'' ''Xavier'') ''g1'' exGroup 7 exTypingServer) =
     [Send 1 (TypingUpdateFrame ''g1'' []), Send 2 (TypingUpdateFrame ''g1'' [])] \<and>
   fst (onTypingTimeout allOpen (exDecoded ''x'' ''Xavier'') ''g1'' exGroup 7
          (snd (onClose 1 (exDecoded ''x'' ''Xavier'') exTypingServer))) = []"
  by (simp add: exTypingServer_eq exConnectedServer_eq onTypingStart_def onTypingStop_def onClose_def
        onTypingTimeout_def closeTyping_def typingGroupsOf_def typingList_def broadcastToGroup_def allOpen_def
        exDecoded_def exServer_def exStore_def exGroup_def Let_def)

section \<open>Message creation and notifications\<close>

lemma update_fresh: "k \<notin> fst ` set al \<Longrightarrow> AList.update k v al = al @ [(k, v)]"
  by (induction al) auto

lemma createNotification_fresh:
  assumes "newId \<notin> fst ` set (notifications s)"
  shows "notifications (snd (createNotification newId now ins s)) =
           notifications s @ [(newId, fst (createNotification newId now ins s))]"
  using assms by (simp add: createNotification_def Let_def update_fresh)

lemma createNotification_fields:
  "n_userId (fst (createNotification newId now ins s)) = in_userId ins"
  "n_type (fst (createNotification newId now ins s)) = in_type ins"
  "n_id (fst (createNotification newId now ins s)) = newId"
  by (simp_all add: createNotification_def Let_def)

lemma notifyMember_self:
  "memberId = u_id user \<Longrightarrow>
     notifyMember readyState ids now user grp groupId message (effects, srv, k) memberId = (effects, srv, k)"
  by (simp add: notifyMember_def)

lemma notifyMember_other:
  assumes "memberId \<noteq> u_id user" and "ids k \<notin> fst ` set (notifications (storage srv))"
  shows "\<exists>effects' srv' n.
           notifyMember readyState ids now user grp groupId message (effects, srv, k) memberId =
             (effects', srv', Suc k) \<and>
           notifications (storage srv') = notifications (storage srv) @ [(ids k, n)] \<and>
           n_userId n = memberId \<and> n_type n = NMessage"
proof -
  let ?ins = "messageNotification user grp groupId message memberId"
  let ?c = "createNotification (ids k) now ?ins (storage srv)"
  have 1: "notifications (snd ?c) = notifications (storage srv) @ [(ids k, fst ?c)]"
    by (rule createNotification_fresh [OF assms(2)])
  have 2: "n_userId (fst ?c) = memberId" "n_type (fst ?c) = NMessage"
    by (simp_all add: createNotification_fields messageNotification_def)
  show ?thesis
    using assms(1) 1 2 by (simp add: notifyMember_def Let_def case_prod_beta)
qed

lemma notificationsFor_append:
  "notifications s' = notifications s @ [(i, n)] \<Longrightarrow>
     notificationsFor s' Y = notificationsFor s Y @ (if n_userId n = Y then [n] else [])"
  by (simp add: notificationsFor_def)

lemma notifyMember_fold:
  assumes "inj ids" and "\<forall>j\<ge>k. ids j \<notin> fst ` set (notifications (storage srv))"
  shows "\<exists>effects' srv' k'.
           foldl (notifyMember readyState ids now user grp groupId message) (effects, srv, k) ms =
             (effects', srv', k') \<and>
           (\<forall>Y. \<exists>news. notificationsFor (storage srv') Y = notificationsFor (storage srv) Y @ news \<and>
                  length news = (if Y = u_id user then 0 else count_list ms Y) \<and>
                  (\<forall>n\<in>set news. n_type n = NMessage))"
  using assms(2)
proof (induction ms arbitrary: effects srv k)
  case Nil
  show ?case by simp
next
  case (Cons m ms)
  show ?case
  proof (cases "m = u_id user")
    case True
    from Cons.IH [OF Cons.prems, of effects] obtain effects' srv' k' where
      1: "foldl (notifyMember readyState ids now user grp groupId message) (effects, srv, k) ms =
             (effects', srv', k')"
         "\<forall>Y. \<exists>news. notificationsFor (storage srv') Y = notificationsFor (storage srv) Y @ news \<and>
                  length news = (if Y = u_id user then 0 else count_list ms Y) \<and>
                  (\<forall>n\<in>set news. n_type n = NMessage)" by blast
    have c: "(if Y = u_id user then 0 else count_list (m # ms) Y) =
             (if Y = u_id user then 0 else count_list ms Y)" for Y
      using True by simp
    have "foldl (notifyMember readyState ids now user grp groupId message) (effects, srv, k) (m # ms) =
            (effects', srv', k')"
      using True 1(1) by (simp add: notifyMember_self)
    with 1(2) show ?thesis unfolding c by blast
  next
    case False
    from Cons.prems have fr: "ids k \<notin> fst ` set (notifications (storage srv))" by simp
    from notifyMember_other [where ids = ids and k = k and srv = srv and readyState = readyState
        and now = now and grp = grp and groupId = groupId and message = message
        and effects = effects, OF False fr]
    obtain effects1 srv1 n where
      s: "notifyMember readyState ids now user grp groupId message (effects, srv, k) m =
             (effects1, srv1, Suc k)"
         "notifications (storage srv1) = notifications (storage srv) @ [(ids k, n)]"
         "n_userId n = m" "n_type n = NMessage" by blast
    have fr1: "\<forall>j\<ge>Suc k. ids j \<notin> fst ` set (notifications (storage srv1))"
    proof (intro allI impI)
      fix j assume j: "Suc k \<le> j"
      then have "ids j \<noteq> ids k" using assms(1) by (auto dest: injD)
      moreover from j Cons.prems have "ids j \<notin> fst ` set (notifications (storage srv))" by simp
      ultimately show "ids j \<notin> fst ` set (notifications (storage srv1))" by (simp add: s(2))
    qed
    from Cons.IH [OF fr1, of effects1] obtain effects' srv' k' where
      1: "foldl (notifyMember readyState ids now user grp groupId message) (effects1, srv1, Suc k) ms =
             (effects', srv', k')"
         "\<forall>Y. \<exists>news. notificationsFor (storage srv') Y = notificationsFor (storage srv1) Y @ news \<and>
                  length news = (if Y = u_id user then 0 else count_list ms Y) \<and>
                  (\<forall>n\<in>set news. n_type n = NMessage)" by blast
    have "\<exists>news. notificationsFor (storage srv') Y = notificationsFor (storage srv) Y @ news \<and>
                  length news = (if Y = u_id user then 0 else count_list (m # ms) Y) \<and>
                  (\<forall>n\<in>set news. n_type n = NMessage)" for Y
    proof -
      from 1(2) obtain news where
        2: "notificationsFor (storage srv') Y = notificationsFor (storage srv1) Y @ news"
           "length news = (if Y = u_id user then 0 else count_list ms Y)"
           "\<forall>n\<in>set news. n_type n = NMessage" by blast
      let ?first = "if n_userId n = Y then [n] else []"
      have 3: "notificationsFor (storage srv1) Y = notificationsFor (storage srv) Y @ ?first"
        by (rule notificationsFor_append [OF s(2)])
      have "notificationsFor (storage srv') Y = notificationsFor (storage srv) Y @ (?first @ news)"
        using 2(1) 3 by simp
      moreover have "length (?first @ news) = (if Y = u_id user then 0 else count_list (m # ms) Y)"
        using 2(2) s(3) False by auto
      moreover have "\<forall>n\<in>set (?first @ news). n_type n = NMessage"
        using 2(3) s(4) by auto
      ultimately show ?thesis by blast
    qed
    with s(1) 1(1) show ?thesis by simp
  qed
qed

lemma safeParseMessage_groupId:
  "safeParseMessage body groupId = Some parsed \<Longrightarrow> im_groupId parsed = groupId"
  by (auto simp: safeParseMessage_def split: option.splits Json.splits)

lemma createMessage_frame:
  "notifications (snd (createMessage newId now ins userId authorName authorAvatar s)) = notifications s"
  "messages (snd (createMessage newId now ins userId authorName authorAvatar s)) newId =
     Some (fst (createMessage newId now ins userId authorName authorAvatar s))"
  "m_authorId (fst (createMessage newId now ins userId authorName authorAvatar s)) = userId"
  by (simp_all add: createMessage_def Let_def split: option.splits)

lemma createMessage_group:
  "groups s (im_groupId ins) = Some grp \<Longrightarrow>
     \<exists>grp'. groups (snd (createMessage newId now ins userId authorName authorAvatar s)) (im_groupId ins) =
              Some grp' \<and> g_members grp' = g_members grp"
  by (simp add: createMessage_def Let_def)

lemma notifyMember_fold_storage:
  "\<exists>effects' srv' k'.
      foldl (notifyMember readyState ids now user grp groupId message) (effects, srv, k) ms =
        (effects', srv', k') \<and>
      messages (storage srv') = messages (storage srv)"
proof (induction ms arbitrary: effects srv k)
  case Nil
  show ?case by simp
next
  case (Cons m ms)
  obtain effects1 srv1 k1 where
    1: "notifyMember readyState ids now user grp groupId message (effects, srv, k) m =
          (effects1, srv1, k1)" by (cases "notifyMember readyState ids now user grp groupId message (effects, srv, k) m") auto
  then have 2: "messages (storage srv1) = messages (storage srv)"
    by (auto simp: notifyMember_def createNotification_def Let_def split: if_splits)
  from Cons.IH [of effects1 srv1 k1] 1 2 show ?case by auto
qed

text \<open>
  C1, amended. When a member \<open>X\<close> of a group posts a message that passes
  validation, the handler answers \<open>201\<close> with the stored message, and for every
  user \<open>Y\<close> other than \<open>X\<close> it appends one notification of type \<open>message\<close> to
  the notifications of \<open>Y\<close> for each occurrence of \<open>Y\<close> in the group's member
  list (one for each other member, the list holding no member twice), and none
  for \<open>X\<close>. The ids that \<open>randomUUID()\<close> returns are taken to be distinct and
  not in use.
\<close>

theorem postGroupMessage_notifies:
  assumes "groups (storage srv) (params_id req) = Some grp"
    and "u_id (req_user req) \<in> set (g_members grp)"
    and "safeParseMessage (req_body req) (params_id req) = Some parsed"
    and "inj ids"
    and "\<forall>j. ids j \<notin> fst ` set (notifications (storage srv))"
  shows "\<exists>message effects srv'.
           postGroupMessage readyState ids now req srv =
             (Response 201 (MessageJson message), effects, srv') \<and>
           m_authorId message = u_id (req_user req) \<and>
           messages (storage srv') (ids 0) = Some message \<and>
           (\<forall>Y. \<exists>news.
              notificationsFor (storage srv') Y = notificationsFor (storage srv) Y @ news \<and>
              length news = (if Y = u_id (req_user req) then 0 else count_list (g_members grp) Y) \<and>
              (\<forall>n\<in>set news. n_type n = NMessage))"
proof -
  let ?user = "req_user req" and ?gid = "params_id req"
  let ?c = "createMessage (ids 0) now parsed (u_id ?user) (u_fullName ?user) (u_avatar ?user) (storage srv)"
  let ?srv1 = "srv\<lparr> storage := snd ?c \<rparr>"
  have gid: "im_groupId parsed = ?gid" by (rule safeParseMessage_groupId [OF assms(3)])
  have "\<exists>grp'. groups (snd ?c) (im_groupId parsed) = Some grp' \<and> g_members grp' = g_members grp"
    by (rule createMessage_group) (simp add: gid assms(1))
  then obtain grp1 where grp1: "groups (snd ?c) ?gid = Some grp1" "g_members grp1 = g_members grp"
    unfolding gid by blast
  let ?sent = "broadcastToGroup readyState ?srv1 (MessageCreatedFrame (fst ?c)) (g_members grp1)"
  have fresh: "\<forall>j\<ge>Suc 0. ids j \<notin> fst ` set (notifications (storage ?srv1))"
    using assms(5) by (simp add: createMessage_frame)
  from notifyMember_fold [OF assms(4) fresh, of readyState now ?user grp1 ?gid "fst ?c" ?sent "g_members grp1"]
  obtain effects' srv' k' where
    f: "foldl (notifyMember readyState ids now ?user grp1 ?gid (fst ?c)) (?sent, ?srv1, Suc 0) (g_members grp1) =
          (effects', srv', k')"
       "\<forall>Y. \<exists>news. notificationsFor (storage srv') Y = notificationsFor (storage ?srv1) Y @ news \<and>
              length news = (if Y = u_id ?user then 0 else count_list (g_members grp1) Y) \<and>
              (\<forall>n\<in>set news. n_type n = NMessage)" by blast
  from notifyMember_fold_storage [of readyState ids now ?user grp1 ?gid "fst ?c" ?sent ?srv1 "Suc 0" "g_members grp1"] f(1)
  have msgs: "messages (storage srv') = messages (snd ?c)" by simp
  have nf: "notificationsFor (snd ?c) Y = notificationsFor (storage srv) Y" for Y
    by (simp add: notificationsFor_def createMessage_frame)
  have news: "\<forall>Y. \<exists>news. notificationsFor (storage srv') Y = notificationsFor (storage srv) Y @ news \<and>
              length news = (if Y = u_id ?user then 0 else count_list (g_members grp) Y) \<and>
              (\<forall>n\<in>set news. n_type n = NMessage)"
  proof -
    have s1: "storage ?srv1 = snd ?c" by simp
    show ?thesis using f(2) unfolding s1 nf grp1(2) .
  qed
  have run: "postGroupMessage readyState ids now req srv =
      (Response 201 (MessageJson (fst ?c)), effects', srv')"
    using assms(1,2,3) grp1 f(1)
    by (simp add: postGroupMessage_def Let_def case_prod_beta)
  have "m_authorId (fst ?c) = u_id ?user" and "messages (storage srv') (ids 0) = Some (fst ?c)"
    by (simp_all add: msgs createMessage_frame)
  with run news show ?thesis by blast
qed

lemma inj_exIds: "inj exIds"
  by (simp add: inj_def exIds_def)

text \<open>
  C1, as stated, fails: \<open>x\<close> and \<open>y\<close> are members of \<open>g1\<close> and \<open>y\<close> has no
  notification; \<open>x\<close> posts \<open>hello\<close> in \<open>g1\<close>, the handler answers \<open>201\<close>, and the
  store then holds a notification of type \<open>message\<close> for \<open>y\<close>.
\<close>

theorem postGroupMessage_counterexample:
  "fst (postGroupMessage allOpen exIds 9 exRequest exServer) =
     Response 201 (MessageJson (exMessage\<lparr> m_id := ''n'', m_createdAt := 9 \<rparr>)) \<and>
   notificationsFor (storage exServer) ''y'' = [] \<and>
   notificationsFor (storage (snd (snd (postGroupMessage allOpen exIds 9 exRequest exServer)))) ''y'' =
     [\<lparr> n_id = ''nn'', n_userId = ''y'', n_title = ''New message in Chess'',
        n_message = ''Xavier: hello'', n_type = NMessage, n_read = False, n_createdAt = 9,
        n_link = Some ''/groups/g1'', n_eventId = None, n_reminderType = None \<rparr>]"
  by (simp add: postGroupMessage_def notifyMember_def createNotification_def createMessage_def
        messageNotification_def safeParseMessage_def parseMessageType_def parseOptionalString_def
        broadcastToGroup_def broadcastNotification_def notificationsFor_def
        exRequest_def exServer_def exStore_def exGroup_def exUser_def exMessage_def exIds_def
        allOpen_def Let_def)

theorem postGroupMessage_notifies_witness:
  "groups (storage exServer) (params_id exRequest) = Some exGroup \<and>
   u_id (req_user exRequest) \<in> set (g_members exGroup) \<and>
   safeParseMessage (req_body exRequest) (params_id exRequest) \<noteq> None \<and>
   inj exIds \<and>
   (\<exists>message effects srv'.
      postGroupMessage allOpen exIds 9 exRequest exServer =
        (Response 201 (MessageJson message), effects, srv') \<and>
      (\<exists>news. notificationsFor (storage srv') ''y'' = notificationsFor (storage exServer) ''y'' @ news \<and>
              length news = 1) \<and>
      notificationsFor (storage srv') ''x'' = notificationsFor (storage exServer) ''x'')"
proof -
  have g: "groups (storage exServer) (params_id exRequest) = Some exGroup"
    by (simp add: exServer_def exStore_def exRequest_def)
  have m: "u_id (req_user exRequest) \<in> set (g_members exGroup)"
    by (simp add: exRequest_def exUser_def exGroup_def)
  have uid: "u_id (req_user exRequest) = ''x''" by (simp add: exRequest_def exUser_def)
  obtain parsed where p: "safeParseMessage (req_body exRequest) (params_id exRequest) = Some parsed"
    by (simp add: safeParseMessage_def parseMessageType_def parseOptionalString_def exRequest_def)
  have f: "\<forall>j. exIds j \<notin> fst ` set (notifications (storage exServer))"
    by (simp add: exServer_def exStore_def)
  have c: "count_list (g_members exGroup) ''y'' = 1" by (simp add: exGroup_def)
  from postGroupMessage_notifies [OF g m p inj_exIds f, of allOpen 9] obtain message effects srv' where
    r: "postGroupMessage allOpen exIds 9 exRequest exServer =
          (Response 201 (MessageJson message), effects, srv')"
       "\<forall>Y. \<exists>news.
              notificationsFor (storage srv') Y = notificationsFor (storage exServer) Y @ news \<and>
              length news = (if Y = u_id (req_user exRequest) then 0 else count_list (g_members exGroup) Y) \<and>
              (\<forall>n\<in>set news. n_type n = NMessage)" by blast
  from r(2) [THEN spec, of "''y''"] have y: "\<exists>news.
      notificationsFor (storage srv') ''y'' = notificationsFor (storage exServer) ''y'' @ news \<and>
      length news = 1" by (auto simp: uid c)
  from r(2) [THEN spec, of "''x''"] have x:
      "notificationsFor (storage srv') ''x'' = notificationsFor (storage exServer) ''x''"
    by (auto simp: uid)
  from g m p inj_exIds r(1) y x show ?thesis by auto
qed

section \<open>The reminder sweep: one reminder per event and user\<close>

lemma remindUser_frame:
  "users (fst (remindUser ids now event ty sk userId)) = users (fst sk) \<and>
   events (fst (remindUser ids now event ty sk userId)) = events (fst sk) \<and>
   eventRegistrations (fst (remindUser ids now event ty sk userId)) = eventRegistrations (fst sk) \<and>
   sentReminders (fst sk) \<subseteq> sentReminders (fst (remindUser ids now event ty sk userId)) \<and>
   fst ` set (notifications (fst (remindUser ids now event ty sk userId)))
     \<subseteq> fst ` set (notifications (fst sk)) \<union> range ids"
  by (auto simp: remindUser_def Let_def AList.dom_update split: option.splits)

lemma remindUser_sent:
  assumes "users (fst sk) userId = Some user"
    and "eventReminders24h (u_notificationPreferences user)"
  shows "reminderKey (e_id event) userId R24h
           \<in> sentReminders (fst (remindUser ids now event R24h sk userId))"
  using assms by (simp add: remindUser_def Let_def)

lemma reminderCount_append:
  "notifications s' = notifications s @ [(i, n)] \<Longrightarrow>
     reminderCount s' eventId userId ty =
       reminderCount s eventId userId ty +
         (if n_type n = NReminder \<and> n_eventId n = Some eventId \<and> n_userId n = userId \<and>
             n_reminderType n = Some ty then 1 else 0)"
  by (simp add: reminderCount_def)

lemma remindUser_potential:
  assumes inj: "inj ids"
    and fresh: "\<forall>j\<ge>snd sk. ids j \<notin> fst ` set (notifications (fst sk))"
    and clash: "reminderKey (e_id event) userId' ty = reminderKey eventId userId R24h \<longrightarrow>
                  e_id event = eventId \<and> userId' = userId \<and> ty = R24h"
  shows "reminderCount (fst (remindUser ids now event ty sk userId')) eventId userId R24h +
           (if reminderKey eventId userId R24h \<in> sentReminders (fst (remindUser ids now event ty sk userId'))
            then 0 else 1) =
         reminderCount (fst sk) eventId userId R24h +
           (if reminderKey eventId userId R24h \<in> sentReminders (fst sk) then 0 else 1) \<and>
         (\<forall>j\<ge>snd (remindUser ids now event ty sk userId').
            ids j \<notin> fst ` set (notifications (fst (remindUser ids now event ty sk userId'))))"
proof (cases "remindUser ids now event ty sk userId' = sk")
  case True
  with fresh show ?thesis by simp
next
  case False
  let ?k = "snd sk" and ?s = "fst sk"
  let ?n = "reminderNotification (ids ?k) now event userId' ty"
  let ?key' = "reminderKey (e_id event) userId' ty"
  from False have notsent: "?key' \<notin> sentReminders ?s"
    by (auto simp: remindUser_def Let_def split: option.splits if_splits)
  from False have r: "remindUser ids now event ty sk userId' =
      (?s\<lparr> notifications := AList.update (ids ?k) ?n (notifications ?s),
            sentReminders := insert ?key' (sentReminders ?s) \<rparr>, Suc ?k)"
    by (auto simp: remindUser_def Let_def split: option.splits if_splits)
  from fresh have "ids ?k \<notin> fst ` set (notifications ?s)" by simp
  then have upd: "AList.update (ids ?k) ?n (notifications ?s) = notifications ?s @ [(ids ?k, ?n)]"
    by (rule update_fresh)
  have cnt: "reminderCount (fst (remindUser ids now event ty sk userId')) eventId userId R24h =
      reminderCount ?s eventId userId R24h +
        (if e_id event = eventId \<and> userId' = userId \<and> ty = R24h then 1 else 0)"
  proof -
    have "notifications (fst (remindUser ids now event ty sk userId')) =
            notifications ?s @ [(ids ?k, ?n)]"
      unfolding r by (simp add: upd)
    from reminderCount_append [OF this, of eventId userId R24h]
    show ?thesis by (simp add: reminderNotification_def)
  qed
  have sent: "sentReminders (fst (remindUser ids now event ty sk userId')) =
      insert ?key' (sentReminders ?s)" unfolding r by simp
  have fresh': "\<forall>j\<ge>snd (remindUser ids now event ty sk userId').
      ids j \<notin> fst ` set (notifications (fst (remindUser ids now event ty sk userId')))"
  proof (intro allI impI)
    fix j assume "snd (remindUser ids now event ty sk userId') \<le> j"
    then have j: "Suc ?k \<le> j" unfolding r by simp
    then have "ids j \<noteq> ids ?k" using inj by (auto dest: injD)
    moreover from j fresh have "ids j \<notin> fst ` set (notifications ?s)" by simp
    ultimately show "ids j \<notin> fst ` set (notifications (fst (remindUser ids now event ty sk userId')))"
      unfolding r by (simp add: upd)
  qed
  show ?thesis
  proof (cases "e_id event = eventId \<and> userId' = userId \<and> ty = R24h")
    case True
    with notsent cnt sent fresh' show ?thesis by simp
  next
    case False
    with clash have "?key' \<noteq> reminderKey eventId userId R24h" by blast
    with False cnt sent fresh' show ?thesis by simp
  qed
qed

lemma sweepFrame_refl: "sweepFrame ids s s"
  by (simp add: sweepFrame_def)

lemma subset_union_trans: "A1 \<subseteq> A \<union> R \<Longrightarrow> A2 \<subseteq> A1 \<union> R \<Longrightarrow> A2 \<subseteq> A \<union> R"
  by blast

lemma sweepFrame_trans:
  assumes "sweepFrame ids s s1" and "sweepFrame ids s1 s2"
  shows "sweepFrame ids s s2"
proof -
  have 1: "users s2 = users s" using assms unfolding sweepFrame_def by simp
  have 2: "events s2 = events s" using assms unfolding sweepFrame_def by simp
  have 3: "eventRegistrations s2 = eventRegistrations s" using assms unfolding sweepFrame_def by simp
  have 4: "sentReminders s \<subseteq> sentReminders s2" using assms unfolding sweepFrame_def by blast
  have "fst ` set (notifications s1) \<subseteq> fst ` set (notifications s) \<union> range ids"
    and "fst ` set (notifications s2) \<subseteq> fst ` set (notifications s1) \<union> range ids"
    using assms unfolding sweepFrame_def by simp_all
  then have 5: "fst ` set (notifications s2) \<subseteq> fst ` set (notifications s) \<union> range ids"
    by (rule subset_union_trans)
  from 1 2 3 4 5 show ?thesis unfolding sweepFrame_def by (intro conjI)
qed

lemma remindUser_sweepFrame: "sweepFrame ids (fst sk) (fst (remindUser ids now event ty sk userId))"
  unfolding sweepFrame_def by (rule remindUser_frame)

lemma remindUser_sweepPotential:
  assumes "inj ids" and "idsFresh ids sk" and "clashFree eventId userId (e_id event) userId' ty"
  shows "sweepPotential (fst (remindUser ids now event ty sk userId')) eventId userId =
           sweepPotential (fst sk) eventId userId \<and>
         idsFresh ids (remindUser ids now event ty sk userId')"
  using remindUser_potential [where ids = ids and sk = sk and event = event and userId' = userId'
      and ty = ty and eventId = eventId and userId = userId and now = now] assms
  unfolding sweepPotential_def idsFresh_def clashFree_def by blast

lemma remindUsers_sweepFrame:
  "sweepFrame ids (fst sk) (fst (foldl (remindUser ids now event ty) sk us))"
proof (induction us arbitrary: sk)
  case Nil
  show ?case by (simp add: sweepFrame_refl)
next
  case (Cons u us)
  have "sweepFrame ids (fst sk) (fst (remindUser ids now event ty sk u))"
    by (rule remindUser_sweepFrame)
  moreover have "sweepFrame ids (fst (remindUser ids now event ty sk u))
      (fst (foldl (remindUser ids now event ty) (remindUser ids now event ty sk u) us))"
    by (rule Cons.IH)
  ultimately show ?case by (simp add: sweepFrame_trans)
qed

lemma remindUsers_sweepPotential:
  assumes "inj ids" and "idsFresh ids sk"
    and "\<forall>userId'\<in>set us. clashFree eventId userId (e_id event) userId' ty"
  shows "sweepPotential (fst (foldl (remindUser ids now event ty) sk us)) eventId userId =
           sweepPotential (fst sk) eventId userId \<and>
         idsFresh ids (foldl (remindUser ids now event ty) sk us)"
  using assms(2,3)
proof (induction us arbitrary: sk)
  case Nil
  then show ?case by simp
next
  case (Cons u us)
  from Cons.prems have c: "clashFree eventId userId (e_id event) u ty" by simp
  from remindUser_sweepPotential [OF assms(1) Cons.prems(1) c, of now]
  have 1: "sweepPotential (fst (remindUser ids now event ty sk u)) eventId userId =
             sweepPotential (fst sk) eventId userId"
       "idsFresh ids (remindUser ids now event ty sk u)" by blast+
  from Cons.prems have "\<forall>userId'\<in>set us. clashFree eventId userId (e_id event) userId' ty" by simp
  from Cons.IH [OF 1(2) this] 1(1) show ?case by simp
qed

lemma remindUsers_sent:
  assumes "userId \<in> set us" and "users (fst sk) userId = Some user"
    and "eventReminders24h (u_notificationPreferences user)"
  shows "reminderKey (e_id event) userId R24h
           \<in> sentReminders (fst (foldl (remindUser ids now event R24h) sk us))"
  using assms(1,2)
proof (induction us arbitrary: sk)
  case Nil
  then show ?case by simp
next
  case (Cons u us)
  let ?sk1 = "remindUser ids now event R24h sk u"
  have f1: "sweepFrame ids (fst sk) (fst ?sk1)" by (rule remindUser_sweepFrame)
  show ?case
  proof (cases "u = userId")
    case True
    from remindUser_sent [OF Cons.prems(2) assms(3), of event ids now] True
    have "reminderKey (e_id event) userId R24h \<in> sentReminders (fst ?sk1)" by simp
    moreover have "sweepFrame ids (fst ?sk1) (fst (foldl (remindUser ids now event R24h) ?sk1 us))"
      by (rule remindUsers_sweepFrame)
    ultimately show ?thesis unfolding sweepFrame_def by auto
  next
    case False
    with Cons.prems have "userId \<in> set us" by simp
    moreover from f1 Cons.prems(2) have "users (fst ?sk1) userId = Some user"
      unfolding sweepFrame_def by simp
    ultimately show ?thesis using Cons.IH by simp
  qed
qed

lemma send_sweepFrame:
  "sweepFrame ids (fst sk) (fst (sendReminderNotifications ids now event ty sk))"
  by (simp add: sendReminderNotifications_def sweepFrame_refl remindUsers_sweepFrame split: option.splits)

lemma send_sweepPotential:
  assumes "inj ids" and "idsFresh ids sk"
    and "\<forall>userId'\<in>set (registrationsOf (fst sk) (e_id event)). clashFree eventId userId (e_id event) userId' ty"
  shows "sweepPotential (fst (sendReminderNotifications ids now event ty sk)) eventId userId =
           sweepPotential (fst sk) eventId userId \<and>
         idsFresh ids (sendReminderNotifications ids now event ty sk)"
proof (cases "eventRegistrations (fst sk) (e_id event)")
  case None
  with assms(2) show ?thesis by (simp add: sendReminderNotifications_def)
next
  case (Some regs)
  with assms(3) have "\<forall>userId'\<in>set regs. clashFree eventId userId (e_id event) userId' ty"
    by (simp add: registrationsOf_def)
  from remindUsers_sweepPotential [OF assms(1,2) this, of now] Some show ?thesis
    by (simp add: sendReminderNotifications_def)
qed

lemma send_sent:
  assumes "eventRegistrations (fst sk) (e_id event) = Some regs" and "userId \<in> set regs"
    and "users (fst sk) userId = Some user" and "eventReminders24h (u_notificationPreferences user)"
  shows "reminderKey (e_id event) userId R24h
           \<in> sentReminders (fst (sendReminderNotifications ids now event R24h sk))"
  using remindUsers_sent [OF assms(2,3,4), of event ids now] assms(1)
  by (simp add: sendReminderNotifications_def)

lemma sweepEvent_sweepFrame:
  "sweepFrame ids (fst sk) (fst (sweepEvent parseDate ids now sk event))"
proof (cases "parseDate (e_date event)")
  case None
  then show ?thesis by (simp add: sweepEvent_def sweepFrame_refl)
next
  case (Some eventTime)
  let ?sk1 = "if in24hWindow eventTime now
              then sendReminderNotifications ids now event R24h sk else sk"
  have 1: "sweepFrame ids (fst sk) (fst ?sk1)"
    by (simp add: send_sweepFrame sweepFrame_refl)
  have 2: "sweepFrame ids (fst ?sk1)
      (fst (if in1hWindow eventTime now
            then sendReminderNotifications ids now event R1h ?sk1 else ?sk1))"
    by (simp only: send_sweepFrame sweepFrame_refl if_split [where P = "\<lambda>x. sweepFrame ids (fst ?sk1) (fst x)"])
       simp
  from sweepFrame_trans [OF 1 2] Some show ?thesis
    by (simp add: sweepEvent_def Let_def)
qed

lemma sweepFrame_registrationsOf:
  "sweepFrame ids s s' \<Longrightarrow> registrationsOf s' eventId = registrationsOf s eventId"
  by (simp add: sweepFrame_def registrationsOf_def)

lemma sweepEvent_sweepPotential:
  assumes "inj ids" and "idsFresh ids sk"
    and "\<forall>userId'\<in>set (registrationsOf (fst sk) (e_id event)).
           clashFree eventId userId (e_id event) userId' R24h \<and>
           clashFree eventId userId (e_id event) userId' R1h"
  shows "sweepPotential (fst (sweepEvent parseDate ids now sk event)) eventId userId =
           sweepPotential (fst sk) eventId userId \<and>
         idsFresh ids (sweepEvent parseDate ids now sk event)"
proof (cases "parseDate (e_date event)")
  case None
  with assms(2) show ?thesis by (simp add: sweepEvent_def)
next
  case (Some eventTime)
  let ?sk1 = "if in24hWindow eventTime now
              then sendReminderNotifications ids now event R24h sk else sk"
  let ?sk2 = "if in1hWindow eventTime now
              then sendReminderNotifications ids now event R1h ?sk1 else ?sk1"
  from assms(3) have c24: "\<forall>userId'\<in>set (registrationsOf (fst sk) (e_id event)).
           clashFree eventId userId (e_id event) userId' R24h" by blast
  have 1: "sweepPotential (fst ?sk1) eventId userId = sweepPotential (fst sk) eventId userId \<and>
           idsFresh ids ?sk1"
    using send_sweepPotential [OF assms(1,2) c24, of now] assms(2) by simp
  have f1: "sweepFrame ids (fst sk) (fst ?sk1)"
    by (simp add: send_sweepFrame sweepFrame_refl)
  from assms(3) have c1: "\<forall>userId'\<in>set (registrationsOf (fst ?sk1) (e_id event)).
           clashFree eventId userId (e_id event) userId' R1h"
    unfolding sweepFrame_registrationsOf [OF f1] by blast
  from 1 have fr1: "idsFresh ids ?sk1" by blast
  have 2: "sweepPotential (fst ?sk2) eventId userId = sweepPotential (fst ?sk1) eventId userId \<and>
           idsFresh ids ?sk2"
  proof (cases "in1hWindow eventTime now")
    case True
    with send_sweepPotential [OF assms(1) fr1 c1, of now] show ?thesis by simp
  next
    case False
    with fr1 show ?thesis by simp
  qed
  have "sweepEvent parseDate ids now sk event = ?sk2"
    using Some by (simp add: sweepEvent_def Let_def)
  with 1 2 show ?thesis by simp
qed

lemma sweepEvent_sent:
  assumes "parseDate (e_date event) = Some eventTime" and "in24hWindow eventTime now"
    and "eventRegistrations (fst sk) (e_id event) = Some regs" and "userId \<in> set regs"
    and "users (fst sk) userId = Some user" and "eventReminders24h (u_notificationPreferences user)"
  shows "reminderKey (e_id event) userId R24h
           \<in> sentReminders (fst (sweepEvent parseDate ids now sk event))"
proof -
  let ?sk1 = "sendReminderNotifications ids now event R24h sk"
  let ?sk2 = "if in1hWindow eventTime now
              then sendReminderNotifications ids now event R1h ?sk1 else ?sk1"
  have 1: "reminderKey (e_id event) userId R24h \<in> sentReminders (fst ?sk1)"
    by (rule send_sent [OF assms(3,4,5,6)])
  have "sweepFrame ids (fst ?sk1) (fst ?sk2)"
    by (cases "in1hWindow eventTime now") (simp_all add: send_sweepFrame sweepFrame_refl)
  with 1 have "reminderKey (e_id event) userId R24h \<in> sentReminders (fst ?sk2)"
    unfolding sweepFrame_def by blast
  moreover have "sweepEvent parseDate ids now sk event = ?sk2"
    using assms(1,2) by (simp add: sweepEvent_def Let_def)
  ultimately show ?thesis by simp
qed

lemma sweepEvents_sweepFrame:
  "sweepFrame ids (fst sk) (fst (foldl (sweepEvent parseDate ids now) sk evs))"
proof (induction evs arbitrary: sk)
  case Nil
  show ?case by (simp add: sweepFrame_refl)
next
  case (Cons ev evs)
  have "sweepFrame ids (fst sk) (fst (sweepEvent parseDate ids now sk ev))"
    by (rule sweepEvent_sweepFrame)
  moreover have "sweepFrame ids (fst (sweepEvent parseDate ids now sk ev))
      (fst (foldl (sweepEvent parseDate ids now) (sweepEvent parseDate ids now sk ev) evs))"
    by (rule Cons.IH)
  ultimately show ?case by (simp add: sweepFrame_trans)
qed

lemma sweepEvents_sweepPotential:
  assumes "inj ids" and "idsFresh ids sk"
    and "\<forall>event'\<in>set evs. \<forall>userId'\<in>set (registrationsOf (fst sk) (e_id event')).
           clashFree eventId userId (e_id event') userId' R24h \<and>
           clashFree eventId userId (e_id event') userId' R1h"
  shows "sweepPotential (fst (foldl (sweepEvent parseDate ids now) sk evs)) eventId userId =
           sweepPotential (fst sk) eventId userId"
  using assms(2,3)
proof (induction evs arbitrary: sk)
  case Nil
  show ?case by simp
next
  case (Cons ev evs)
  let ?sk1 = "sweepEvent parseDate ids now sk ev"
  from Cons.prems(2) have c: "\<forall>userId'\<in>set (registrationsOf (fst sk) (e_id ev)).
           clashFree eventId userId (e_id ev) userId' R24h \<and>
           clashFree eventId userId (e_id ev) userId' R1h" by simp
  from sweepEvent_sweepPotential [OF assms(1) Cons.prems(1) c, of parseDate now]
  have 1: "sweepPotential (fst ?sk1) eventId userId = sweepPotential (fst sk) eventId userId"
    and fr: "idsFresh ids ?sk1" by blast+
  have f: "sweepFrame ids (fst sk) (fst ?sk1)" by (rule sweepEvent_sweepFrame)
  from Cons.prems(2) have "\<forall>event'\<in>set evs. \<forall>userId'\<in>set (registrationsOf (fst ?sk1) (e_id event')).
           clashFree eventId userId (e_id event') userId' R24h \<and>
           clashFree eventId userId (e_id event') userId' R1h"
    unfolding sweepFrame_registrationsOf [OF f] by simp
  from Cons.IH [OF fr this] 1 show ?case by simp
qed

lemma sweepEvents_sent:
  assumes "event \<in> set evs"
    and "parseDate (e_date event) = Some eventTime" and "in24hWindow eventTime now"
    and "eventRegistrations (fst sk) (e_id event) = Some regs" and "userId \<in> set regs"
    and "users (fst sk) userId = Some user" and "eventReminders24h (u_notificationPreferences user)"
  shows "reminderKey (e_id event) userId R24h
           \<in> sentReminders (fst (foldl (sweepEvent parseDate ids now) sk evs))"
  using assms(1,4,6)
proof (induction evs arbitrary: sk)
  case Nil
  then show ?case by simp
next
  case (Cons ev evs)
  let ?sk1 = "sweepEvent parseDate ids now sk ev"
  have f: "sweepFrame ids (fst sk) (fst ?sk1)" by (rule sweepEvent_sweepFrame)
  show ?case
  proof (cases "ev = event")
    case True
    from sweepEvent_sent [where parseDate = parseDate and ids = ids, OF assms(2,3) Cons.prems(2) assms(5)
        Cons.prems(3) assms(7)] True
    have "reminderKey (e_id event) userId R24h \<in> sentReminders (fst ?sk1)" by simp
    moreover have "sweepFrame ids (fst ?sk1) (fst (foldl (sweepEvent parseDate ids now) ?sk1 evs))"
      by (rule sweepEvents_sweepFrame)
    ultimately show ?thesis unfolding sweepFrame_def by auto
  next
    case False
    with Cons.prems(1) have "event \<in> set evs" by simp
    moreover from f Cons.prems(2,3) have "eventRegistrations (fst ?sk1) (e_id event) = Some regs"
        "users (fst ?sk1) userId = Some user" unfolding sweepFrame_def by simp_all
    ultimately show ?thesis using Cons.IH by simp
  qed
qed

lemma clashFree_same_length:
  assumes "length eventId' = length eventId"
  shows "clashFree eventId userId eventId' userId' ty'"
proof (cases ty')
  case R24h
  then show ?thesis using assms by (auto simp: clashFree_def reminderKey_def reminderTypeString_def)
next
  case R1h
  have "userId' @ ''-1h'' \<noteq> userId @ ''-24h''"
  proof
    assume "userId' @ ''-1h'' = userId @ ''-24h''"
    then have "userId' @ ''-1h'' = (userId @ ''-'') @ ''24h''" by simp
    moreover have "length ''-1h'' = length ''24h''" by simp
    ultimately have "userId' = userId @ ''-'' \<and> ''-1h'' = ''24h''"
      by (subst (asm) append_eq_append_conv) simp_all
    then show False by simp
  qed
  with R1h assms show ?thesis
    by (auto simp: clashFree_def reminderKey_def reminderTypeString_def)
qed

lemma noClash_same_length:
  assumes "\<forall>event'\<in>snd ` set (events s). length (e_id event') = length eventId"
  shows "noClash s eventId userId"
  using assms unfolding noClash_def by (simp add: clashFree_same_length)

text \<open>
  C6. Take a stored event that is not cancelled, a user in its registration
  set who exists and has the 24-hour preference on, no reminder key recorded
  yet for the pair, and no clash of reminder keys. If two consecutive sweep
  passes both find the event inside the 24-hour window, the first pass stores
  exactly one notification of type \<open>reminder\<close> with \<open>reminderType\<close> \<open>24h\<close> for
  the pair and records the reminder key, and the second pass stores none: after
  both passes the store holds exactly one more such notification than before.
  The ids that \<open>randomUUID()\<close> returns in the two passes are taken to be
  distinct and not in use.
\<close>

theorem reminder_sent_once:
  assumes "event \<in> snd ` set (events s)" and "\<not> e_cancelled event"
    and "eventRegistrations s (e_id event) = Some registrations" and "userId \<in> set registrations"
    and "users s userId = Some user" and "eventReminders24h (u_notificationPreferences user)"
    and "parseDate (e_date event) = Some eventTime"
    and "in24hWindow eventTime now" and "in24hWindow eventTime now'"
    and "reminderKey (e_id event) userId R24h \<notin> sentReminders s"
    and "noClash s (e_id event) userId"
    and "inj ids" and "inj ids'" and "range ids \<inter> range ids' = {}"
    and "range ids \<inter> fst ` set (notifications s) = {}"
    and "range ids' \<inter> fst ` set (notifications s) = {}"
  shows "reminderCount (reminderSweep parseDate ids now s) (e_id event) userId R24h =
           reminderCount s (e_id event) userId R24h + 1 \<and>
         reminderKey (e_id event) userId R24h \<in> sentReminders (reminderSweep parseDate ids now s) \<and>
         reminderCount (reminderSweep parseDate ids' now' (reminderSweep parseDate ids now s))
             (e_id event) userId R24h =
           reminderCount s (e_id event) userId R24h + 1"
proof -
  let ?K = "reminderKey (e_id event) userId R24h"
  let ?s1 = "reminderSweep parseDate ids now s"
  let ?s2 = "reminderSweep parseDate ids' now' ?s1"
  have ev: "event \<in> set (map snd (events s))" using assms(1) by simp
  have fresh1: "idsFresh ids (s, 0)"
    using assms(15) by (auto simp: idsFresh_def)
  have clash: "\<forall>event'\<in>set (map snd (events s)).
      \<forall>userId'\<in>set (registrationsOf (fst (s, 0::nat)) (e_id event')).
        clashFree (e_id event) userId (e_id event') userId' R24h \<and>
        clashFree (e_id event) userId (e_id event') userId' R1h"
    using assms(11) by (simp add: noClash_def)
  have frame1: "sweepFrame ids s ?s1"
    using sweepEvents_sweepFrame [of ids "(s, 0)" parseDate now "map snd (events s)"]
    by (simp add: reminderSweep_def)
  have pot1: "sweepPotential ?s1 (e_id event) userId = sweepPotential s (e_id event) userId"
    using sweepEvents_sweepPotential [OF assms(12) fresh1 clash, of parseDate now]
    by (simp add: reminderSweep_def)
  have sent1: "?K \<in> sentReminders ?s1"
    using sweepEvents_sent [where parseDate = parseDate and ids = ids and sk = "(s, 0)",
        OF ev assms(7,8) _ assms(4) _ assms(6)] assms(3,5)
    by (simp add: reminderSweep_def)
  from pot1 sent1 assms(10) have c1: "reminderCount ?s1 (e_id event) userId R24h =
      reminderCount s (e_id event) userId R24h + 1"
    by (simp add: sweepPotential_def)
  have ev1: "events ?s1 = events s" and regs1: "eventRegistrations ?s1 = eventRegistrations s"
    and keys1: "fst ` set (notifications ?s1) \<subseteq> fst ` set (notifications s) \<union> range ids"
    using frame1 unfolding sweepFrame_def by simp_all
  have fresh2: "idsFresh ids' (?s1, 0)"
    unfolding idsFresh_def
  proof (intro allI impI)
    fix j
    have "ids' j \<notin> fst ` set (notifications s)" using assms(16) by blast
    moreover have "ids' j \<notin> range ids" using assms(14) by blast
    ultimately show "ids' j \<notin> fst ` set (notifications (fst (?s1, 0::nat)))"
      using keys1 by auto
  qed
  have clash2: "\<forall>event'\<in>set (map snd (events ?s1)).
      \<forall>userId'\<in>set (registrationsOf (fst (?s1, 0::nat)) (e_id event')).
        clashFree (e_id event) userId (e_id event') userId' R24h \<and>
        clashFree (e_id event) userId (e_id event') userId' R1h"
    using assms(11) by (simp add: noClash_def ev1 registrationsOf_def regs1)
  have frame2: "sweepFrame ids' ?s1 ?s2"
    using sweepEvents_sweepFrame [of ids' "(?s1, 0)" parseDate now' "map snd (events ?s1)"]
    by (simp add: reminderSweep_def)
  have pot2: "sweepPotential ?s2 (e_id event) userId = sweepPotential ?s1 (e_id event) userId"
    using sweepEvents_sweepPotential [OF assms(13) fresh2 clash2, of parseDate now']
    by (simp add: reminderSweep_def)
  from frame2 sent1 have sent2: "?K \<in> sentReminders ?s2"
    unfolding sweepFrame_def by blast
  from pot2 sent1 sent2 have "reminderCount ?s2 (e_id event) userId R24h =
      reminderCount ?s1 (e_id event) userId R24h"
    by (simp add: sweepPotential_def)
  with c1 sent1 show ?thesis by simp
qed

lemma inj_exIds2: "inj exIds2"
  by (simp add: inj_def exIds2_def)

theorem reminder_sent_once_witness:
  "exEvent \<in> snd ` set (events exStore) \<and> \<not> e_cancelled exEvent \<and>
   eventRegistrations exStore (e_id exEvent) = Some [''x''] \<and>
   users exStore ''x'' = Some (exUser ''x'' ''Xavier'') \<and>
   eventReminders24h (u_notificationPreferences (exUser ''x'' ''Xavier'')) \<and>
   exParseDate (e_date exEvent) = Some 86400000 \<and>
   in24hWindow 86400000 0 \<and> in24hWindow 86400000 300000 \<and>
   reminderKey (e_id exEvent) ''x'' R24h \<notin> sentReminders exStore \<and>
   noClash exStore (e_id exEvent) ''x'' \<and>
   reminderCount exStore (e_id exEvent) ''x'' R24h = 0 \<and>
   reminderCount (reminderSweep exParseDate exIds 0 exStore) (e_id exEvent) ''x'' R24h = 1 \<and>
   reminderCount (reminderSweep exParseDate exIds2 300000 (reminderSweep exParseDate exIds 0 exStore))
     (e_id exEvent) ''x'' R24h = 1"
proof -
  have h1: "exEvent \<in> snd ` set (events exStore)" by (simp add: exStore_def)
  have h2: "\<not> e_cancelled exEvent" by (simp add: exEvent_def)
  have h3: "eventRegistrations exStore (e_id exEvent) = Some [''x'']"
    by (simp add: exStore_def exEvent_def)
  have h4: "''x'' \<in> set [''x'']" by simp
  have h5: "users exStore ''x'' = Some (exUser ''x'' ''Xavier'')" by (simp add: exStore_def)
  have h6: "eventReminders24h (u_notificationPreferences (exUser ''x'' ''Xavier''))"
    by (simp add: exUser_def)
  have h7: "exParseDate (e_date exEvent) = Some 86400000" by (simp add: exParseDate_def exEvent_def)
  have h8: "in24hWindow 86400000 0" by (simp add: in24hWindow_def hoursUntil_def)
  have h9: "in24hWindow 86400000 300000" by (simp add: in24hWindow_def hoursUntil_def)
  have h10: "reminderKey (e_id exEvent) ''x'' R24h \<notin> sentReminders exStore"
    by (simp add: exStore_def)
  have h11: "noClash exStore (e_id exEvent) ''x''"
    by (simp add: noClash_def clashFree_def registrationsOf_def reminderKey_def
          reminderTypeString_def exStore_def exEvent_def exEvent2_def)
  have h14: "range exIds \<inter> range exIds2 = {}" by (auto simp: exIds_def exIds2_def)
  have h15: "range exIds \<inter> fst ` set (notifications exStore) = {}" by (simp add: exStore_def)
  have h16: "range exIds2 \<inter> fst ` set (notifications exStore) = {}" by (simp add: exStore_def)
  have c0: "reminderCount exStore (e_id exEvent) ''x'' R24h = 0"
    by (simp add: reminderCount_def exStore_def)
  from reminder_sent_once [where parseDate = exParseDate,
      OF h1 h2 h3 h4 h5 h6 h7 h8 h9 h10 h11 inj_exIds inj_exIds2 h14 h15 h16]
    h1 h2 h3 h5 h6 h7 h8 h9 h10 h11 c0
  show ?thesis by simp
qed

end
